theory Spec2Isabelle
  imports Complex_Main "HOL-Library.Log_Nat" "HOL-Library.Word" "HOL-Library.Signed_Division"
begin

section \<open>Single-precision floating point\<close>

text \<open>
  The kernels of \<^verbatim>\<open>Gamma.mm\<close> are Metal functions over \<^verbatim>\<open>float\<close>: IEEE 754 binary32.
  A value is a NaN, an infinity, the negative zero, or a finite real (\<open>Fin 0\<close> is the positive
  zero). The four arithmetic operations round the exact result to the nearest binary32 value,
  ties to even; \<open>trunc\<close>, \<open>floor\<close>, \<open>fabs\<close> and \<open>copysign\<close> are exact. The transcendental
  functions of the Metal library (\<open>exp\<close>, \<open>log\<close>, \<open>pow\<close>, \<open>sin\<close>, \<open>sinpi\<close>, \<open>tan\<close>,
  \<open>fract\<close>) are not part of the repository and are a parameter of every kernel.
\<close>

datatype f32 = NaN | PInf | NInf | NZero | Fin real

text \<open>The exponent of the binade of a positive real, not below that of the subnormals.\<close>

definition binade :: "real \<Rightarrow> int" where
  "binade r = max (- 126) (if 1 \<le> r then bitlen \<lfloor>r\<rfloor> - 1 else - bitlen (\<lceil>1 / r\<rceil> - 1))"

definition round_even :: "real \<Rightarrow> int" where
  "round_even x = (let f = \<lfloor>x\<rfloor>; d = x - of_int f in
      if d < 1 / 2 then f else if 1 / 2 < d then f + 1 else if even f then f else f + 1)"

text \<open>Rounding a magnitude to 24 significant bits (fewer below \<open>2 powi (- 126)\<close>).\<close>

definition rnd_mag :: "real \<Rightarrow> real" where
  "rnd_mag r = (let q = 2 powi (binade r - 23) in of_int (round_even (r / q)) * q)"

definition round32 :: "real \<Rightarrow> f32" where
  "round32 v = (let m = rnd_mag \<bar>v\<bar> in
      if 2 ^ 128 \<le> m then (if v < 0 then NInf else PInf)
      else if m = 0 then (if v < 0 then NZero else Fin 0)
      else Fin (if v < 0 then - m else m))"

text \<open>A value of the type is a binary32 value when rounding leaves it alone.\<close>

definition is_f32 :: "f32 \<Rightarrow> bool" where
  "is_f32 x = (case x of Fin r \<Rightarrow> round32 r = Fin r | _ \<Rightarrow> True)"

fun valof :: "f32 \<Rightarrow> real" where
  "valof (Fin r) = r"
| "valof _ = 0"

fun signbit :: "f32 \<Rightarrow> bool" where
  "signbit NInf = True"
| "signbit NZero = True"
| "signbit (Fin r) = (r < 0)"
| "signbit _ = False"

definition is_inf :: "f32 \<Rightarrow> bool" where
  "is_inf x = (x = PInf \<or> x = NInf)"

definition is_zero :: "f32 \<Rightarrow> bool" where
  "is_zero x = (x = NZero \<or> x = Fin 0)"

definition inf_of :: "bool \<Rightarrow> f32" where
  "inf_of s = (if s then NInf else PInf)"

definition zero_of :: "bool \<Rightarrow> f32" where
  "zero_of s = (if s then NZero else Fin 0)"

fun fneg :: "f32 \<Rightarrow> f32" where
  "fneg NaN = NaN"
| "fneg PInf = NInf"
| "fneg NInf = PInf"
| "fneg NZero = Fin 0"
| "fneg (Fin r) = (if r = 0 then NZero else Fin (- r))"

fun fabs :: "f32 \<Rightarrow> f32" where
  "fabs NaN = NaN"
| "fabs PInf = PInf"
| "fabs NInf = PInf"
| "fabs NZero = Fin 0"
| "fabs (Fin r) = Fin \<bar>r\<bar>"

definition fadd :: "f32 \<Rightarrow> f32 \<Rightarrow> f32" where
  "fadd x y =
     (if x = NaN \<or> y = NaN then NaN
      else if is_inf x then (if is_inf y \<and> x \<noteq> y then NaN else x)
      else if is_inf y then y
      else if x = NZero \<and> y = NZero then NZero
      else round32 (valof x + valof y))"

definition fsub :: "f32 \<Rightarrow> f32 \<Rightarrow> f32" where
  "fsub x y = fadd x (fneg y)"

definition fmul :: "f32 \<Rightarrow> f32 \<Rightarrow> f32" where
  "fmul x y =
     (if x = NaN \<or> y = NaN then NaN
      else if is_inf x \<or> is_inf y then
        (if is_zero x \<or> is_zero y then NaN else inf_of (signbit x \<noteq> signbit y))
      else if is_zero x \<or> is_zero y then zero_of (signbit x \<noteq> signbit y)
      else round32 (valof x * valof y))"

definition fdiv :: "f32 \<Rightarrow> f32 \<Rightarrow> f32" where
  "fdiv x y =
     (if x = NaN \<or> y = NaN then NaN
      else if is_inf x then (if is_inf y then NaN else inf_of (signbit x \<noteq> signbit y))
      else if is_inf y then zero_of (signbit x \<noteq> signbit y)
      else if is_zero y then (if is_zero x then NaN else inf_of (signbit x \<noteq> signbit y))
      else if is_zero x then zero_of (signbit x \<noteq> signbit y)
      else round32 (valof x / valof y))"

text \<open>The comparisons: every comparison with a NaN is false but \<open>!=\<close>; the zeros are equal.\<close>

definition flt :: "f32 \<Rightarrow> f32 \<Rightarrow> bool" where
  "flt x y =
     (x \<noteq> NaN \<and> y \<noteq> NaN \<and>
      (if x = NInf then y \<noteq> NInf
       else if y = PInf then x \<noteq> PInf
       else x \<noteq> PInf \<and> y \<noteq> NInf \<and> valof x < valof y))"

definition feq :: "f32 \<Rightarrow> f32 \<Rightarrow> bool" where
  "feq x y =
     (x \<noteq> NaN \<and> y \<noteq> NaN \<and> (if is_inf x \<or> is_inf y then x = y else valof x = valof y))"

definition fle :: "f32 \<Rightarrow> f32 \<Rightarrow> bool" where
  "fle x y = (flt x y \<or> feq x y)"

definition fne :: "f32 \<Rightarrow> f32 \<Rightarrow> bool" where
  "fne x y = (\<not> feq x y)"

text \<open>\<open>trunc\<close> rounds towards zero and \<open>floor\<close> downwards; both keep the sign of a zero result.\<close>

fun ftrunc :: "f32 \<Rightarrow> f32" where
  "ftrunc (Fin r) =
     (if 0 \<le> r then Fin (of_int \<lfloor>r\<rfloor>)
      else if \<lceil>r\<rceil> = 0 then NZero else Fin (of_int \<lceil>r\<rceil>))"
| "ftrunc x = x"

fun ffloor :: "f32 \<Rightarrow> f32" where
  "ffloor (Fin r) = Fin (of_int \<lfloor>r\<rfloor>)"
| "ffloor x = x"

definition fcopysign :: "f32 \<Rightarrow> f32 \<Rightarrow> f32" where
  "fcopysign x y = (if signbit x = signbit y then x else fneg x)"

text \<open>Conversions between the integers of the kernels and \<^verbatim>\<open>float\<close>.\<close>

definition float_of_int :: "int \<Rightarrow> f32" where
  "float_of_int n = round32 (of_int n)"

text \<open>\<^verbatim>\<open>static_cast<int>\<close>: towards zero, saturating; a NaN gives 0.\<close>

fun to_int32 :: "f32 \<Rightarrow> int" where
  "to_int32 NaN = 0"
| "to_int32 PInf = 2 ^ 31 - 1"
| "to_int32 NInf = - (2 ^ 31)"
| "to_int32 NZero = 0"
| "to_int32 (Fin r) = max (- (2 ^ 31)) (min (2 ^ 31 - 1) (if 0 \<le> r then \<lfloor>r\<rfloor> else \<lceil>r\<rceil>))"

text \<open>The functions of the Metal standard library that the kernels call.\<close>

record mathlib =
  m_exp :: "f32 \<Rightarrow> f32"
  m_log :: "f32 \<Rightarrow> f32"
  m_pow :: "f32 \<Rightarrow> f32 \<Rightarrow> f32"
  m_sin :: "f32 \<Rightarrow> f32"
  m_sinpi :: "f32 \<Rightarrow> f32"
  m_tan :: "f32 \<Rightarrow> f32"
  m_fract :: "f32 \<Rightarrow> f32"

section \<open>The kernels of the Metal template\<close>

subsection \<open>Constants\<close>

text \<open>A decimal literal of the template is the nearest \<^verbatim>\<open>float\<close>.\<close>

definition EULER_MASCHERONI :: f32 where
  "EULER_MASCHERONI = round32 (577215664901532860606512090 / 10 ^ 27)"

definition HALF_LOG_TWO_PI :: f32 where
  "HALF_LOG_TWO_PI = round32 (91893853320467274178032973640562 / 10 ^ 32)"

definition LOG_PI :: f32 where
  "LOG_PI = round32 (114472988584940017414342735135305 / 10 ^ 32)"

definition PI :: f32 where
  "PI = round32 (314159265358979323846264338327 / 10 ^ 29)"

definition PI_SQUARED :: f32 where
  "PI_SQUARED = round32 (986960440108935861883449099987615 / 10 ^ 32)"

definition MACHEP :: f32 where
  "MACHEP = round32 (111022302462515654042 / 10 ^ 36)"

definition PSI_10 :: f32 where
  "PSI_10 = round32 (225175258906672110764 / 10 ^ 20)"

definition DIGAMMA_COEF :: "f32 list" where
  "DIGAMMA_COEF = map round32
     [833333333333333333333 / 10 ^ 22,
      - 210927960927960927961 / 10 ^ 22,
      757575757575757575758 / 10 ^ 23,
      - 416666666666666666667 / 10 ^ 23,
      396825396825396825397 / 10 ^ 23,
      - 833333333333333333333 / 10 ^ 23,
      833333333333333333333 / 10 ^ 22]"

definition ZETA_EXPANSION :: "f32 list" where
  "ZETA_EXPANSION = map round32
     [12,
      - 720,
      30240,
      - 1209600,
      47900160,
      - 18924375803183791606 / 10 ^ 10,
      74724249600,
      - 2950130727918164224,
      116467828143500672490 / 10 ^ 6,
      - 45979787224074726105 / 10 ^ 4,
      18152105401943546773 / 10 ^ 2,
      - 71661652561756670113 / 10]"

definition GAMMA_NUMERATOR_COEF :: "f32 list" where
  "GAMMA_NUMERATOR_COEF = map round32
     [- 171618513886549492533811 / 10 ^ 23,
      247656508055759199108314 / 10 ^ 22,
      - 379804256470945635097577 / 10 ^ 21,
      629331155312818442661052 / 10 ^ 21,
      866966202790413211295064 / 10 ^ 21,
      - 314512729688483675254357 / 10 ^ 19,
      - 361444134186911729807069 / 10 ^ 19,
      664561438202405440627855 / 10 ^ 19]"

definition GAMMA_DENOMINATOR_COEF :: "f32 list" where
  "GAMMA_DENOMINATOR_COEF = map round32
     [- 308402300119738975254353 / 10 ^ 22,
      315350626979604161529144 / 10 ^ 21,
      - 101515636749021914166146 / 10 ^ 20,
      - 310777167157231109440444 / 10 ^ 20,
      225381184209801510330112 / 10 ^ 19,
      475584627752788110767815 / 10 ^ 20,
      - 134659959864969306392456 / 10 ^ 18,
      - 115132259675553483497211 / 10 ^ 18]"

definition LGAMMA_EXPANSION_COEF :: "f32 list" where
  "LGAMMA_EXPANSION_COEF =
     [fdiv (Fin 1) (Fin 12),
      fdiv (Fin (- 1)) (Fin 360),
      fdiv (Fin 1) (Fin 1260),
      fdiv (Fin (- 1)) (Fin 1680),
      fdiv (Fin 1) (Fin 1188),
      fdiv (Fin (- 691)) (Fin 360360),
      fdiv (Fin 1) (Fin 156),
      fdiv (Fin (- 3617)) (Fin 122400)]"

subsection \<open>\<^verbatim>\<open>Gamma\<close> and \<^verbatim>\<open>LogGamma\<close>\<close>

text \<open>The loop over the eight coefficients of the rational approximation on (1,2).\<close>

primrec gamma_horner :: "f32 \<Rightarrow> (f32 \<times> f32) list \<Rightarrow> f32 \<times> f32 \<Rightarrow> f32 \<times> f32" where
  "gamma_horner z [] nd = nd"
| "gamma_horner z (c # cs) nd =
     gamma_horner z cs (fmul (fadd (fst nd) (fst c)) z, fadd (fmul (snd nd) z) (snd c))"

text \<open>\<^verbatim>\<open>for (i = 0; i < n; i++) result *= y++;\<close>\<close>

primrec gamma_unshift :: "nat \<Rightarrow> f32 \<Rightarrow> f32 \<Rightarrow> f32" where
  "gamma_unshift 0 result y = result"
| "gamma_unshift (Suc k) result y = gamma_unshift k (fmul result y) (fadd y (Fin 1))"

text \<open>\<^verbatim>\<open>for (int i=6; i >= 0; i--) { sum *= z; sum += LGAMMA_EXPANSION_COEF[i]; }\<close>,
  over the coefficients in the order the loop reads them.\<close>

primrec lgamma_horner :: "f32 \<Rightarrow> f32 list \<Rightarrow> f32 \<Rightarrow> f32" where
  "lgamma_horner z [] acc = acc"
| "lgamma_horner z (c # cs) acc = lgamma_horner z cs (fadd (fmul acc z) c)"

function Gamma :: "mathlib \<Rightarrow> f32 \<Rightarrow> f32" and LogGamma :: "mathlib \<Rightarrow> f32 \<Rightarrow> f32" where
  "Gamma L x =
     (if flt x (round32 (1 / 1000)) then
        fdiv (Fin 1) (fmul x (fadd (Fin 1) (fmul EULER_MASCHERONI x)))
      else if flt x (Fin 12) then
        (let less_than_one = flt x (Fin 1);
             n = (if less_than_one then 0 else to_int32 (ffloor x) - 1);
             y = (if less_than_one then fadd x (Fin 1) else fsub x (float_of_int n));
             z = fsub y (Fin 1);
             nd = gamma_horner z (zip GAMMA_NUMERATOR_COEF GAMMA_DENOMINATOR_COEF) (Fin 0, Fin 1);
             result = fadd (fdiv (fst nd) (snd nd)) (Fin 1)
         in if less_than_one then fdiv result (fsub y (Fin 1))
            else gamma_unshift (nat n) result y)
      else m_exp L (LogGamma L x))"
| "LogGamma L x0 =
     (let is_negative = flt x0 (Fin 0);
          x = (if is_negative then fneg x0 else x0)
      in if feq x (Fin 0) then PInf
         else
          (let logGamma =
             (if flt x (Fin 12) then m_log L (fabs (Gamma L x))
              else
               (let z = fdiv (Fin 1) (fmul x x);
                    sm = lgamma_horner z (rev (butlast LGAMMA_EXPANSION_COEF))
                            (last LGAMMA_EXPANSION_COEF);
                    series = fdiv sm x
                in fadd (fadd (fsub (fmul (fsub x (Fin (1 / 2))) (m_log L x)) x)
                           HALF_LOG_TWO_PI) series))
           in if is_negative then
                fsub (fsub LOG_PI logGamma) (m_log L (fabs (fmul x (m_sinpi L x))))
              else logGamma))"
  by pat_completeness auto
termination
  by (relation "measure (\<lambda>s. case s of Inl (L, x) \<Rightarrow> (if flt x (Fin 12) then 0 else 2) | Inr _ \<Rightarrow> 1)")
    auto

declare Gamma.simps [simp del] LogGamma.simps [simp del]

subsection \<open>\<^verbatim>\<open>calc_digamma_positive_domain\<close>\<close>

text \<open>
  \<^verbatim>\<open>while (x < 10) { result -= 1 / x; x += 1; }\<close>: the loop need not end (it does not move
  an \<open>x\<close> below \<open>- (2 ^ 24)\<close>), so that not returning is the value \<open>None\<close>.
\<close>

partial_function (option) digamma_shift :: "f32 \<Rightarrow> f32 \<Rightarrow> (f32 \<times> f32) option" where
  "digamma_shift result x =
     (if flt x (Fin 10) then digamma_shift (fsub result (fdiv (Fin 1) x)) (fadd x (Fin 1))
      else Some (result, x))"

text \<open>The state of that loop after \<open>k\<close> rounds, whether or not the loop goes that far.\<close>

primrec digamma_rounds :: "nat \<Rightarrow> f32 \<times> f32 \<Rightarrow> f32 \<times> f32" where
  "digamma_rounds 0 s = s"
| "digamma_rounds (Suc k) s =
     digamma_rounds k (fsub (fst s) (fdiv (Fin 1) (snd s)), fadd (snd s) (Fin 1))"

text \<open>\<^verbatim>\<open>for (int i = 0; i <= 6; i++) y += pow(z, i) * DIGAMMA_COEF[i];\<close>\<close>

primrec digamma_series :: "mathlib \<Rightarrow> f32 \<Rightarrow> (int \<times> f32) list \<Rightarrow> f32 \<Rightarrow> f32" where
  "digamma_series L z [] y = y"
| "digamma_series L z (c # cs) y =
     digamma_series L z cs (fadd y (fmul (m_pow L z (float_of_int (fst c))) (snd c)))"

definition calc_digamma_positive_domain :: "mathlib \<Rightarrow> f32 \<Rightarrow> f32 option" where
  "calc_digamma_positive_domain L x0 =
     (case digamma_shift (Fin 0) x0 of
        None \<Rightarrow> None
      | Some (result, x) \<Rightarrow>
          if feq x (Fin 10) then Some (fadd result PSI_10)
          else
           (let y = (if flt x (round32 (10 ^ 17)) then
                       (let z = fdiv (Fin 1) (fmul x x)
                        in fmul (digamma_series L z (zip [0, 1, 2, 3, 4, 5, 6] DIGAMMA_COEF) (Fin 0)) z)
                     else Fin 0)
            in Some (fsub (fsub (fadd result (m_log L x)) (fdiv (Fin (1 / 2)) x)) y)))"

subsection \<open>\<^verbatim>\<open>calc_zeta\<close>\<close>

text \<open>
  The direct summation \<^verbatim>\<open>while ((i < 9) || (a <= 9.0))\<close>, with \<open>i\<close> a 32-bit \<^verbatim>\<open>int\<close>.
  It leaves by its \<^verbatim>\<open>return s\<close> (\<open>Inl\<close>) or by its condition (\<open>Inr\<close>, with \<open>s\<close>, \<open>a\<close>
  and \<open>b\<close>).
\<close>

partial_function (option) zeta_sum ::
  "mathlib \<Rightarrow> f32 \<Rightarrow> f32 \<Rightarrow> f32 \<Rightarrow> 32 word \<Rightarrow> f32 \<Rightarrow> (f32 + f32 \<times> f32 \<times> f32) option" where
  "zeta_sum L x s a i b =
     (if sint i < 9 \<or> fle a (Fin 9) then
        (let i' = i + 1;
             a' = fadd a (Fin 1);
             b' = m_pow L a' (fneg x);
             s' = fadd s b'
         in if flt (fmul (fneg MACHEP) s') b' \<and> flt b' (fmul MACHEP s') then Some (Inl s')
            else zeta_sum L x s' a' i' b')
      else Some (Inr (s, a, b)))"

text \<open>The Euler-Maclaurin loop over the twelve constants of \<^verbatim>\<open>ZETA_EXPANSION\<close>.\<close>

primrec zeta_tail :: "f32 \<Rightarrow> f32 \<Rightarrow> f32 list \<Rightarrow> f32 \<Rightarrow> f32 \<Rightarrow> f32 \<Rightarrow> f32 \<Rightarrow> f32" where
  "zeta_tail x w [] a b s k = s"
| "zeta_tail x w (c # cs) a b s k =
     (let a1 = fmul a (fadd x k);
          b1 = fdiv b w;
          t = fdiv (fmul a1 b1) c;
          s1 = fadd s t
      in if flt (fabs (fdiv t s1)) MACHEP then s1
         else
          (let k1 = fadd k (Fin 1);
               a2 = fmul a1 (fadd x k1);
               b2 = fdiv b1 w;
               k2 = fadd k1 (Fin 1)
           in zeta_tail x w cs a2 b2 s1 k2))"

definition calc_zeta :: "mathlib \<Rightarrow> f32 \<Rightarrow> f32 \<Rightarrow> f32 option" where
  "calc_zeta L x q =
     (if feq x (Fin 1) then Some PInf
      else if flt x (Fin 1) then Some NaN
      else if fle q (Fin 0) \<and> feq q (ftrunc q) then Some PInf
      else if fle q (Fin 0) \<and> fne x (ftrunc x) then Some NaN
      else
       (case zeta_sum L x (m_pow L q (fneg x)) q 0 (Fin 0) of
          None \<Rightarrow> None
        | Some (Inl s) \<Rightarrow> Some s
        | Some (Inr (s, a, b)) \<Rightarrow>
           (let w = a;
                s1 = fadd s (fdiv (fmul b w) (fsub x (Fin 1)));
                s2 = fsub s1 (fmul (Fin (1 / 2)) b)
            in Some (zeta_tail x w ZETA_EXPANSION (Fin 1) b s2 (Fin 0)))))"

subsection \<open>\<^verbatim>\<open>calc_trigamma\<close>\<close>

text \<open>Division of two \<^verbatim>\<open>int\<close>s truncates towards zero, as in \<^verbatim>\<open>(1 / 6)\<close>.\<close>

definition int_div :: "int \<Rightarrow> int \<Rightarrow> int" where
  "int_div a b = a sdiv b"

text \<open>\<^verbatim>\<open>for (int i = 0; i < 6; ++i) { result += 1 / (x * x); x += 1; }\<close>\<close>

primrec trigamma_shift :: "nat \<Rightarrow> f32 \<times> f32 \<Rightarrow> f32 \<times> f32" where
  "trigamma_shift 0 s = s"
| "trigamma_shift (Suc k) s =
     trigamma_shift k (fadd (fst s) (fdiv (Fin 1) (fmul (snd s) (snd s))), fadd (snd s) (Fin 1))"

text \<open>The term that the last assignment to \<open>result\<close> adds, at the shifted \<open>x\<close>.\<close>

definition trigamma_correction :: "f32 \<Rightarrow> f32" where
  "trigamma_correction x =
     (let ixx = fdiv (Fin 1) (fmul x x)
      in fdiv
           (fadd (fadd (Fin 1) (fdiv (Fin 1) (fmul (Fin 2) x)))
              (fmul ixx
                 (fsub (float_of_int (int_div 1 6))
                    (fmul ixx
                       (fsub (float_of_int (int_div 1 3)) (fmul ixx (float_of_int (int_div 1 42))))))))
           x)"

text \<open>The reflection of an argument below one half: the sign, \<open>result\<close> and \<open>x\<close> before the loop.\<close>

definition trigamma_reflect :: "mathlib \<Rightarrow> f32 \<Rightarrow> f32 \<times> f32 \<times> f32" where
  "trigamma_reflect L x =
     (if flt x (Fin (1 / 2)) then
        (let sin_pi_x = m_sin L (fmul PI x)
         in (Fin (- 1), fsub (Fin 0) (fdiv PI_SQUARED (fmul sin_pi_x sin_pi_x)), fsub (Fin 1) x))
      else (Fin 1, Fin 0, x))"

definition calc_trigamma :: "mathlib \<Rightarrow> f32 \<Rightarrow> f32" where
  "calc_trigamma L x0 =
     (case trigamma_reflect L x0 of
        (sign, result0, x1) \<Rightarrow>
          (case trigamma_shift 6 (result0, x1) of
             (result, x) \<Rightarrow> fmul sign (fadd result (trigamma_correction x))))"

subsection \<open>The four kernels, at one element\<close>

text \<open>
  Each kernel reads \<^verbatim>\<open>input[id]\<close> into a \<^verbatim>\<open>float\<close> and writes one value to \<^verbatim>\<open>output[id]\<close>;
  the functions below give that value from the \<^verbatim>\<open>float\<close> read.
\<close>

definition trigamma :: "mathlib \<Rightarrow> f32 \<Rightarrow> f32 option" where
  "trigamma L x = Some (calc_trigamma L x)"

definition polygamma :: "mathlib \<Rightarrow> 64 word \<Rightarrow> f32 \<Rightarrow> f32 option" where
  "polygamma L order x =
     (let n = float_of_int (sint order);
          sgn = float_of_int (if sint order smod 2 \<noteq> 0 then 1 else - 1)
      in case calc_zeta L (fadd n (Fin 1)) x of
           None \<Rightarrow> None
         | Some zt \<Rightarrow> Some (fmul (fmul sgn (Gamma L (fadd n (Fin 1)))) zt))"

definition digamma :: "mathlib \<Rightarrow> f32 \<Rightarrow> f32 option" where
  "digamma L x =
     (if flt x (Fin 0) then
        (if feq x (ftrunc x) then Some NaN
         else
          (let r = m_fract L x
           in case calc_digamma_positive_domain L (fsub (Fin 1) x) of
                None \<Rightarrow> None
              | Some d \<Rightarrow> Some (fsub d (fdiv PI (m_tan L (fmul PI r))))))
      else if feq x (Fin 0) then Some (fcopysign PInf (fneg x))
      else calc_digamma_positive_domain L x)"

definition lgamma :: "mathlib \<Rightarrow> f32 \<Rightarrow> f32 option" where
  "lgamma L x = Some (LogGamma L x)"

text \<open>
  A library whose functions all return a NaN: the kernels are evaluated with it at arguments
  where no library function decides the result.
\<close>

definition nan_lib :: mathlib where
  "nan_lib =
     \<lparr>m_exp = (\<lambda>x. NaN), m_log = (\<lambda>x. NaN), m_pow = (\<lambda>x y. NaN), m_sin = (\<lambda>x. NaN),
      m_sinpi = (\<lambda>x. NaN), m_tan = (\<lambda>x. NaN), m_fract = (\<lambda>x. NaN)\<rparr>"

section \<open>The pipeline cache\<close>

text \<open>
  \<^verbatim>\<open>compileGammaOpsLibrary\<close> and \<^verbatim>\<open>getCPLState\<close> keep one function-local static map each,
  keyed by the concatenated strings. A library and a pipeline state are objects of the device:
  each creation gives a new handle. The device decides whether the rendered template compiles
  and whether a pipeline state can be built; the template defines four kernels.
  \<open>compiled\<close> records, in order, the type pairs for which a library was created.
\<close>

datatype error = Error string

datatype library = Library nat string string

datatype pipeline = Pipeline nat library string

record device =
  compiles :: "string \<Rightarrow> string \<Rightarrow> bool"
  compile_error :: "string \<Rightarrow> string \<Rightarrow> string"
  pipeline_builds :: "library \<Rightarrow> string \<Rightarrow> bool"
  pipeline_error :: "library \<Rightarrow> string \<Rightarrow> string"

record cache =
  libMap :: "string \<rightharpoonup> library"
  cplMap :: "string \<rightharpoonup> pipeline"
  next_handle :: nat
  compiled :: "(string \<times> string) list"

definition empty_cache :: cache where
  "empty_cache = \<lparr>libMap = Map.empty, cplMap = Map.empty, next_handle = 0, compiled = []\<rparr>"

definition template_kernels :: "string list" where
  "template_kernels = [''trigamma'', ''polygamma'', ''digamma'', ''lgamma'']"

definition compileGammaOpsLibrary ::
  "device \<Rightarrow> cache \<Rightarrow> string \<Rightarrow> string \<Rightarrow> (error + library) \<times> cache" where
  "compileGammaOpsLibrary dev st t1 t2 =
     (let key = t1 @ t2
      in case libMap st key of
           Some lib \<Rightarrow> (Inr lib, st)
         | None \<Rightarrow>
             if \<not> compiles dev t1 t2 then
               (Inl (Error (''Failed to compile library: '' @ compile_error dev t1 t2)), st)
             else
              (let rc = Library (next_handle st) t1 t2
               in (Inr rc,
                   st\<lparr>libMap := (libMap st)(key \<mapsto> rc),
                      next_handle := Suc (next_handle st),
                      compiled := compiled st @ [(t1, t2)]\<rparr>)))"

definition getCPLState ::
  "device \<Rightarrow> cache \<Rightarrow> string \<Rightarrow> string \<Rightarrow> string \<Rightarrow> (error + pipeline) \<times> cache" where
  "getCPLState dev st t1 t2 fname =
     (let key = t1 @ t2 @ fname
      in case cplMap st key of
           Some cpl \<Rightarrow> (Inr cpl, st)
         | None \<Rightarrow>
            (case compileGammaOpsLibrary dev st t1 t2 of
               (Inl e, st1) \<Rightarrow> (Inl e, st1)
             | (Inr lib, st1) \<Rightarrow>
                 if fname \<notin> set template_kernels then
                   (Inl (Error (''Can't get function '' @ fname)), st1)
                 else if \<not> pipeline_builds dev lib fname then
                   (Inl (Error (''Failed to construct pipeline state: '' @ pipeline_error dev lib fname)),
                    st1)
                 else
                  (let rc = Pipeline (next_handle st1) lib fname
                   in (Inr rc,
                       st1\<lparr>cplMap := (cplMap st1)(key \<mapsto> rc),
                           next_handle := Suc (next_handle st1)\<rparr>))))"

text \<open>The states the cache can be in: any number of calls, with any arguments, from the empty one.\<close>

inductive reachable :: "device \<Rightarrow> cache \<Rightarrow> bool" for dev :: device where
  start: "reachable dev empty_cache"
| call: "reachable dev st \<Longrightarrow> reachable dev (snd (getCPLState dev st t1 t2 fname))"

text \<open>A run of calls, each with its own arguments, from a given state.\<close>

primrec calls :: "device \<Rightarrow> cache \<Rightarrow> (string \<times> string \<times> string) list \<Rightarrow> cache" where
  "calls dev st [] = st"
| "calls dev st (c # cs) =
     calls dev (snd (getCPLState dev st (fst c) (fst (snd c)) (snd (snd c)))) cs"

section \<open>The operator entry points\<close>

text \<open>
  A tensor is its element type, its storage and, for each element in logical order, the place
  of the element in the storage; it is contiguous when the two orders agree. The kernels index
  both buffers by the thread position.
\<close>

datatype ScalarType =
  Byte | Char | Short | Int | Long | Half | Float | Double | ComplexHalf | ComplexFloat
  | ComplexDouble | Bool | BFloat16

record Tensor =
  scalar_type :: ScalarType
  storage :: "f32 list"
  places :: "nat list"

definition numel :: "Tensor \<Rightarrow> nat" where
  "numel t = length (places t)"

definition is_contiguous :: "Tensor \<Rightarrow> bool" where
  "is_contiguous t = (places t = [0..<length (places t)])"

definition elements :: "Tensor \<Rightarrow> f32 list" where
  "elements t = map (\<lambda>i. if i < length (storage t) then storage t ! i else NaN) (places t)"

definition contiguous :: "Tensor \<Rightarrow> Tensor" where
  "contiguous t =
     (if is_contiguous t then t
      else t\<lparr>storage := elements t, places := [0..<length (places t)]\<rparr>)"

definition tensor_copy :: "Tensor \<Rightarrow> Tensor \<Rightarrow> Tensor" where
  "tensor_copy dst src =
     dst\<lparr>storage := fold (\<lambda>iv st. st[fst iv := snd iv]) (zip (places dst) (elements src)) (storage dst)\<rparr>"

text \<open>
  \<^verbatim>\<open>scalarToMetalTypeString\<close> is declared outside the repository's files and is a parameter, as
  is the Metal library.
\<close>

record backend =
  the_device :: device
  the_lib :: mathlib
  scalarToMetalTypeString :: "ScalarType \<Rightarrow> string"

text \<open>The kernel a pipeline state runs, from the name of its function.\<close>

definition kernel_of :: "mathlib \<Rightarrow> pipeline \<Rightarrow> 64 word \<Rightarrow> f32 \<Rightarrow> f32 option" where
  "kernel_of L cpl order =
     (case cpl of Pipeline h l fname \<Rightarrow>
        if fname = ''lgamma'' then lgamma L
        else if fname = ''digamma'' then digamma L
        else if fname = ''trigamma'' then trigamma L
        else polygamma L order)"

text \<open>
  \<^verbatim>\<open>dispatch1DJob\<close>: one thread for each position below \<open>length\<close>. A thread whose position
  is outside a buffer is left out; the call returns when every thread does.
\<close>

fun dispatch1DJob :: "(f32 \<Rightarrow> f32 option) \<Rightarrow> f32 list \<Rightarrow> f32 list \<Rightarrow> nat \<Rightarrow> f32 list option" where
  "dispatch1DJob k (x # xs) (y # ys) (Suc n) =
     (case k x of
        None \<Rightarrow> None
      | Some v \<Rightarrow> (case dispatch1DJob k xs ys n of None \<Rightarrow> None | Some vs \<Rightarrow> Some (v # vs)))"
| "dispatch1DJob k xs ys n = Some ys"

text \<open>
  The part the three entry points share after their checks: the early return on an empty
  output, the contiguous copy, the pipeline state, the dispatch and the copy back. The result
  is \<open>None\<close> when a kernel thread does not return.
\<close>

definition launch ::
  "backend \<Rightarrow> cache \<Rightarrow> string \<Rightarrow> 64 word \<Rightarrow> Tensor \<Rightarrow> Tensor \<Rightarrow> ((error + unit) \<times> cache \<times> Tensor) option"
  where
  "launch B st func_name order self output0 =
     (let length32 = numel output0 mod 2 ^ 32
      in if length32 = 0 then Some (Inr (), st, output0)
         else
          (let needs_output_copy = (\<not> is_contiguous self);
               output = (if needs_output_copy then contiguous output0 else output0);
               input_type = scalarToMetalTypeString B (scalar_type self);
               output_type = scalarToMetalTypeString B (scalar_type output)
           in case getCPLState (the_device B) st input_type output_type func_name of
                (Inl e, st1) \<Rightarrow> Some (Inl e, st1, output0)
              | (Inr cplState, st1) \<Rightarrow>
                 (case dispatch1DJob (kernel_of (the_lib B) cplState order) (storage self)
                         (storage output) length32 of
                    None \<Rightarrow> None
                  | Some vs \<Rightarrow>
                     (let written = output\<lparr>storage := vs\<rparr>
                      in Some (Inr (), st1,
                           if needs_output_copy then tensor_copy output0 written else written)))))"

definition lgamma_out_mps ::
  "backend \<Rightarrow> cache \<Rightarrow> Tensor \<Rightarrow> Tensor \<Rightarrow> ((error + unit) \<times> cache \<times> Tensor) option" where
  "lgamma_out_mps B st self output0 =
     (if scalar_type self = Double then
        Some (Inl (Error ''MPS does not support lgamma_out op with scalar type: Double''), st, output0)
      else launch B st ''lgamma'' 0 self output0)"

definition digamma_out_mps ::
  "backend \<Rightarrow> cache \<Rightarrow> Tensor \<Rightarrow> Tensor \<Rightarrow> ((error + unit) \<times> cache \<times> Tensor) option" where
  "digamma_out_mps B st self output0 =
     (if scalar_type self = Double then
        Some (Inl (Error ''MPS does not support digamma_out op with scalar type: Double''), st, output0)
      else launch B st ''digamma'' 0 self output0)"

definition polygamma_out_mps ::
  "backend \<Rightarrow> cache \<Rightarrow> 64 word \<Rightarrow> Tensor \<Rightarrow> Tensor \<Rightarrow> ((error + unit) \<times> cache \<times> Tensor) option"
  where
  "polygamma_out_mps B st order self output0 =
     (if scalar_type self = Double then
        Some (Inl (Error ''MPS does not support polygamma_out op with scalar type: Double''), st,
              output0)
      else if \<not> 0 \<le> sint order then
        Some (Inl (Error ''Polygamma is implemented only for nonnegative real numbers''), st, output0)
      else
       (let func_name = (if order = 0 then ''digamma'' else if order = 1 then ''trigamma''
                         else ''polygamma'')
        in launch B st func_name order self output0))"

text \<open>The value \<^verbatim>\<open>num/den + 1.0\<close> of \<^verbatim>\<open>Gamma\<close>, from \<open>z\<close>.\<close>

definition gamma_ratio :: "f32 \<Rightarrow> f32" where
  "gamma_ratio z =
     (let nd = gamma_horner z (zip GAMMA_NUMERATOR_COEF GAMMA_DENOMINATOR_COEF) (Fin 0, Fin 1)
      in fadd (fdiv (fst nd) (snd nd)) (Fin 1))"

text \<open>A device on which every compilation and every pipeline construction succeeds.\<close>

definition ok_device :: device where
  "ok_device = \<lparr>compiles = (\<lambda>a b. True), compile_error = (\<lambda>a b. []),
     pipeline_builds = (\<lambda>l f. True), pipeline_error = (\<lambda>l f. [])\<rparr>"

text \<open>A backend for evaluating the entry points: every type is rendered as \<^verbatim>\<open>float\<close>.\<close>

definition ok_backend :: backend where
  "ok_backend =
     \<lparr>the_device = ok_device, the_lib = nan_lib, scalarToMetalTypeString = (\<lambda>t. ''float'')\<rparr>"

text \<open>
  What the cache keeps true: the keys of the compiled pairs are distinct, and each of them is
  in \<open>libMap\<close>.
\<close>

definition cache_inv :: "cache \<Rightarrow> bool" where
  "cache_inv st \<longleftrightarrow>
     distinct (map (\<lambda>tt. fst tt @ snd tt) (compiled st)) \<and>
     (\<forall>tt \<in> set (compiled st). libMap st (fst tt @ snd tt) \<noteq> None)"

text \<open>
  Bounds on a value: \<open>at_least c x\<close> when \<open>x\<close> is plus infinity or a finite value not below
  \<open>c\<close>.
\<close>

definition at_least :: "real \<Rightarrow> f32 \<Rightarrow> bool" where
  "at_least c x = (case x of PInf \<Rightarrow> True | Fin m \<Rightarrow> c \<le> m | _ \<Rightarrow> False)"

definition nan_or_at_least :: "real \<Rightarrow> f32 \<Rightarrow> bool" where
  "nan_or_at_least c x = (x = NaN \<or> at_least c x)"

text \<open>
  For the summation loop of \<^verbatim>\<open>calc_zeta\<close>: the values of \<open>a\<close> from which adding 1 moves on,
  and what decreases in each round, the distance of \<open>a\<close> from 10 before the number of rounds
  \<open>i\<close> is short of 9.
\<close>

definition zeta_ok :: "f32 \<Rightarrow> bool" where
  "zeta_ok a = (case a of NInf \<Rightarrow> False | Fin r \<Rightarrow> - (2 ^ 23) \<le> r | _ \<Rightarrow> True)"

definition zeta_dist :: "f32 \<Rightarrow> nat" where
  "zeta_dist a = (if fle a (Fin 9) then nat (10 - \<lfloor>valof a\<rfloor>) else 0)"

definition zeta_count :: "32 word \<Rightarrow> nat" where
  "zeta_count i = (if sint i < 9 then nat (9 - sint i) else 0)"

definition zeta_measure :: "f32 \<Rightarrow> 32 word \<Rightarrow> nat" where
  "zeta_measure a i = zeta_dist a * 2 ^ 32 + zeta_count i"

section \<open>Comparisons\<close>

lemma flt_feq_excl: "flt x y \<Longrightarrow> \<not> feq x y"
  by (auto simp: flt_def feq_def is_inf_def split: if_splits)

lemma feq_zero: "feq x (Fin 0) \<longleftrightarrow> x = Fin 0 \<or> x = NZero"
  by (cases x) (auto simp: feq_def is_inf_def)

lemma feq_refl_Fin: "feq (Fin r) (Fin r)"
  by (simp add: feq_def is_inf_def)

lemma ftrunc_of_int: "ftrunc (Fin (of_int k)) = Fin (of_int k)"
  by simp

lemma ftrunc_negative_integers:
  "ftrunc (Fin (- 1)) = Fin (- 1)" "ftrunc (Fin (- 2)) = Fin (- 2)" "ftrunc (Fin (- 5)) = Fin (- 5)"
  using ftrunc_of_int [of "- 1"] ftrunc_of_int [of "- 2"] ftrunc_of_int [of "- 5"] by simp_all

section \<open>Evaluation\<close>

text \<open>The rules that compute the arithmetic on numerals.\<close>

lemmas fl_eval = round32_def rnd_mag_def binade_def compute_bitlen round_even_def Let_def
  fadd_def fsub_def fmul_def fdiv_def flt_def feq_def fle_def fne_def is_inf_def is_zero_def
  inf_of_def zero_of_def float_of_int_def

lemma gamma_coefs:
  "GAMMA_NUMERATOR_COEF = [Fin (- (3599101 / 2097152)), Fin (6492167 / 262144),
  Fin (- (6222713 / 16384)), Fin (5155481 / 8192), Fin (7102187 / 8192),
  Fin (- (4025763 / 128)), Fin (- (4626485 / 128)), Fin (4253193 / 64)]"
  "GAMMA_DENOMINATOR_COEF = [Fin (- (16169163 / 524288)), Fin (10333409 / 32768),
  Fin (- (8316161 / 8192)), Fin (- (12729433 / 4096)), Fin (11539517 / 512),
  Fin (9739973 / 2048), Fin (- (8618237 / 64)), Fin (- (14736929 / 128))]"
  by (simp_all add: GAMMA_NUMERATOR_COEF_def GAMMA_DENOMINATOR_COEF_def fl_eval)

lemma Gamma_small:
  "flt x (round32 (1 / 1000)) \<Longrightarrow>
   Gamma L x = fdiv (Fin 1) (fmul x (fadd (Fin 1) (fmul EULER_MASCHERONI x)))"
  by (simp add: Gamma.simps)

lemma flt_Fin_mono: "flt x (Fin a) \<Longrightarrow> a \<le> b \<Longrightarrow> flt x (Fin b)"
  by (cases x) (auto simp: flt_def)

lemma Gamma_below_one:
  "\<not> flt x (round32 (1 / 1000)) \<Longrightarrow> flt x (Fin 1) \<Longrightarrow>
   Gamma L x = fdiv (gamma_ratio (fsub (fadd x (Fin 1)) (Fin 1))) (fsub (fadd x (Fin 1)) (Fin 1))"
  using flt_Fin_mono [of x 1 12] by (simp add: Gamma.simps gamma_ratio_def Let_def)

lemma Gamma_middle:
  "\<not> flt x (round32 (1 / 1000)) \<Longrightarrow> \<not> flt x (Fin 1) \<Longrightarrow> flt x (Fin 12) \<Longrightarrow>
   Gamma L x =
     gamma_unshift (nat (to_int32 (ffloor x) - 1))
       (gamma_ratio (fsub (fsub x (float_of_int (to_int32 (ffloor x) - 1))) (Fin 1)))
       (fsub x (float_of_int (to_int32 (ffloor x) - 1)))"
  by (simp add: Gamma.simps gamma_ratio_def Let_def)

lemma gamma_ratio_0: "gamma_ratio (Fin 0) = Fin 1"
  by (simp add: gamma_ratio_def gamma_coefs fl_eval)

lemma Gamma_3: "Gamma L (Fin 3) = Fin 2"
proof -
  have a: "\<not> flt (Fin 3) (round32 (1 / 1000))" "\<not> flt (Fin 3) (Fin 1)" "flt (Fin 3) (Fin 12)"
    by (simp_all add: fl_eval)
  have b: "to_int32 (ffloor (Fin 3)) - 1 = 2"
    by simp
  have c: "fsub (Fin 3) (float_of_int 2) = Fin 1"
    by (simp add: fl_eval)
  have d: "fsub (Fin 1) (Fin 1) = Fin 0"
    by (simp add: fl_eval)
  show ?thesis
    unfolding Gamma_middle [OF a] b c d gamma_ratio_0
    by (simp add: eval_nat_numeral fl_eval)
qed


section \<open>The poles of the digamma kernel\<close>

text \<open>
  C4. For every input \<open>x\<close> with \<open>x < 0\<close> and \<open>x == trunc(x)\<close> (a negative integer, or minus
  infinity) the digamma kernel writes a NaN.
\<close>

theorem digamma_negative_integer:
  "flt x (Fin 0) \<Longrightarrow> feq x (ftrunc x) \<Longrightarrow> digamma L x = Some NaN"
  by (simp add: digamma_def)

theorem digamma_negative_integer_witness:
  "flt (Fin (- 1)) (Fin 0) \<and> feq (Fin (- 1)) (ftrunc (Fin (- 1))) \<and>
   digamma nan_lib (Fin (- 1)) = Some NaN \<and>
   digamma nan_lib (Fin (- 2)) = Some NaN \<and>
   digamma nan_lib (Fin (- 5)) = Some NaN"
  using digamma_negative_integer [of "Fin (- 1)" nan_lib]
    digamma_negative_integer [of "Fin (- 2)" nan_lib]
    digamma_negative_integer [of "Fin (- 5)" nan_lib]
  by (simp add: flt_def ftrunc_negative_integers feq_refl_Fin del: ftrunc.simps)

text \<open>
  C3, as the claim has it, fails in its last part: \<open>copysign(inf, -0)\<close> is minus infinity, and
  that is what the kernel writes at the positive zero.
\<close>

theorem digamma_zero_counterexample:
  "fcopysign PInf (fneg (Fin 0)) = NInf \<and> digamma nan_lib (Fin 0) = Some NInf"
  by (simp add: digamma_def flt_def feq_def is_inf_def fcopysign_def)

text \<open>
  C3, amended. For an input \<open>x\<close> equal to zero, of either sign, the digamma kernel writes
  \<open>copysign(inf, -x)\<close>: minus infinity at the positive zero and plus infinity at the negative
  zero.
\<close>

theorem digamma_zero:
  "(feq x (Fin 0) \<longrightarrow> digamma L x = Some (fcopysign PInf (fneg x))) \<and>
   digamma L (Fin 0) = Some NInf \<and>
   digamma L NZero = Some PInf"
  by (auto simp: feq_zero digamma_def flt_def fcopysign_def feq_def is_inf_def)

theorem digamma_zero_witness:
  "feq NZero (Fin 0) \<and> digamma nan_lib NZero = Some (fcopysign PInf (fneg NZero)) \<and>
   fcopysign PInf (fneg NZero) = PInf"
  using digamma_zero [of NZero nan_lib]
  by (simp add: feq_zero fcopysign_def)

section \<open>The domain checks of \<^verbatim>\<open>calc_zeta\<close>\<close>

text \<open>
  C5. \<^verbatim>\<open>calc_zeta\<close> returns special values and raises nothing. In the order of its checks:
  plus infinity when \<open>x == 1\<close>; a NaN for every \<open>x < 1\<close>; then, for \<open>q <= 0\<close>, plus infinity
  when \<open>q\<close> is an integer, and a NaN when it is not and \<open>x\<close> is not an integer either.
\<close>

theorem calc_zeta_domain:
  "(feq x (Fin 1) \<longrightarrow> calc_zeta L x q = Some PInf) \<and>
   (flt x (Fin 1) \<longrightarrow> calc_zeta L x q = Some NaN) \<and>
   (\<not> feq x (Fin 1) \<and> \<not> flt x (Fin 1) \<and> fle q (Fin 0) \<and> feq q (ftrunc q)
      \<longrightarrow> calc_zeta L x q = Some PInf) \<and>
   (\<not> feq x (Fin 1) \<and> \<not> flt x (Fin 1) \<and> fle q (Fin 0) \<and> \<not> feq q (ftrunc q) \<and> fne x (ftrunc x)
      \<longrightarrow> calc_zeta L x q = Some NaN)"
  by (simp add: calc_zeta_def flt_feq_excl)

theorem calc_zeta_domain_witness:
  "calc_zeta nan_lib (Fin 1) (Fin 3) = Some PInf \<and>
   calc_zeta nan_lib (Fin (1 / 2)) (Fin 3) = Some NaN \<and>
   calc_zeta nan_lib (Fin 2) (Fin (- 3)) = Some PInf \<and>
   calc_zeta nan_lib (Fin (5 / 2)) (Fin (- 1 / 2)) = Some NaN"
  using calc_zeta_domain [of "Fin 1" nan_lib "Fin 3"]
    calc_zeta_domain [of "Fin (1 / 2)" nan_lib "Fin 3"]
    calc_zeta_domain [of "Fin 2" nan_lib "Fin (- 3)"]
    calc_zeta_domain [of "Fin (5 / 2)" nan_lib "Fin (- 1 / 2)"]
  by (simp add: flt_def feq_def fle_def fne_def is_inf_def)

section \<open>The pipeline cache compiles once\<close>

lemma compile_libMap_mono:
  "libMap st k = Some l \<Longrightarrow> libMap (snd (compileGammaOpsLibrary dev st t1 t2)) k = Some l"
  by (auto simp: compileGammaOpsLibrary_def Let_def split: option.splits)

lemma compile_cplMap: "cplMap (snd (compileGammaOpsLibrary dev st t1 t2)) = cplMap st"
  by (auto simp: compileGammaOpsLibrary_def Let_def split: option.splits)

lemma getCPLState_cplMap_mono:
  "cplMap st k = Some p \<Longrightarrow> cplMap (snd (getCPLState dev st t1 t2 fname)) k = Some p"
  using compile_cplMap [of dev st t1 t2]
  by (auto simp: getCPLState_def Let_def split: option.splits prod.splits sum.splits)

lemma getCPLState_libMap_mono:
  "libMap st k = Some l \<Longrightarrow> libMap (snd (getCPLState dev st t1 t2 fname)) k = Some l"
  using compile_libMap_mono [of st k l dev t1 t2]
  by (auto simp: getCPLState_def Let_def split: option.splits prod.splits sum.splits)

lemma getCPLState_cached:
  "getCPLState dev st t1 t2 fname = (Inr p, st') \<Longrightarrow> cplMap st' (t1 @ t2 @ fname) = Some p"
  using compile_cplMap [of dev st t1 t2]
  by (auto simp: getCPLState_def Let_def split: option.splits prod.splits sum.splits if_splits)

lemma getCPLState_hit:
  "cplMap st (t1 @ t2 @ fname) = Some p \<Longrightarrow> getCPLState dev st t1 t2 fname = (Inr p, st)"
  by (simp add: getCPLState_def)

lemma calls_cplMap_mono:
  "cplMap st k = Some p \<Longrightarrow> cplMap (calls dev st cs) k = Some p"
  by (induction cs arbitrary: st) (auto intro: getCPLState_cplMap_mono)

lemma compile_inv: "cache_inv st \<Longrightarrow> cache_inv (snd (compileGammaOpsLibrary dev st t1 t2))"
  by (auto simp: cache_inv_def compileGammaOpsLibrary_def Let_def split: option.splits)

lemma cache_inv_upd: "cache_inv (st\<lparr>cplMap := c, next_handle := n\<rparr>) = cache_inv st"
  by (simp add: cache_inv_def)

lemma getCPLState_state:
  "snd (getCPLState dev st t1 t2 fname) = st \<or>
   snd (getCPLState dev st t1 t2 fname) = snd (compileGammaOpsLibrary dev st t1 t2) \<or>
   (\<exists>c n. snd (getCPLState dev st t1 t2 fname) =
      (snd (compileGammaOpsLibrary dev st t1 t2))\<lparr>cplMap := c, next_handle := n\<rparr>)"
  by (auto simp: getCPLState_def Let_def split: option.splits prod.splits sum.splits)

lemma getCPLState_inv: "cache_inv st \<Longrightarrow> cache_inv (snd (getCPLState dev st t1 t2 fname))"
  using compile_inv [of st dev t1 t2] getCPLState_state [of dev st t1 t2 fname]
  by (auto simp: cache_inv_upd)

lemma reachable_inv: "reachable dev st \<Longrightarrow> cache_inv st"
  by (induction rule: reachable.induct) (auto simp: getCPLState_inv, simp add: cache_inv_def empty_cache_def)

lemma distinct_count_le_1: "distinct xs \<Longrightarrow> count_list xs x \<le> 1"
  by (induction xs) (auto simp: count_list_0_iff)

text \<open>
  C7. Once a call of \<^verbatim>\<open>getCPLState\<close> has returned a pipeline state for a triple of input
  type name, output type name and function name, every later call with that triple, after any
  other calls, returns the same object and leaves the cache as it is, so nothing is compiled
  again. In every state the cache can reach, a library was created at most once for each type
  pair (and for each key). A failed compilation raises and caches nothing.
\<close>

theorem pipeline_cached_once:
  "(getCPLState dev st t1 t2 fname = (Inr p, st') \<longrightarrow>
      getCPLState dev (calls dev st' cs) t1 t2 fname = (Inr p, calls dev st' cs)) \<and>
   (reachable dev st \<longrightarrow>
      distinct (compiled st) \<and> distinct (map (\<lambda>tt. fst tt @ snd tt) (compiled st)) \<and>
      count_list (compiled st) (t1, t2) \<le> 1)"
proof (intro conjI impI)
  assume "getCPLState dev st t1 t2 fname = (Inr p, st')"
  then have "cplMap st' (t1 @ t2 @ fname) = Some p"
    by (rule getCPLState_cached)
  then have "cplMap (calls dev st' cs) (t1 @ t2 @ fname) = Some p"
    by (rule calls_cplMap_mono)
  then show "getCPLState dev (calls dev st' cs) t1 t2 fname = (Inr p, calls dev st' cs)"
    by (rule getCPLState_hit)
next
  assume r: "reachable dev st"
  then have d: "distinct (map (\<lambda>tt. fst tt @ snd tt) (compiled st))"
    using reachable_inv by (auto simp: cache_inv_def)
  then show "distinct (map (\<lambda>tt. fst tt @ snd tt) (compiled st))" .
  from d show d': "distinct (compiled st)"
    by (simp add: distinct_map)
  then show "count_list (compiled st) (t1, t2) \<le> 1"
    by (rule distinct_count_le_1)
qed


lemma ok_call:
  "getCPLState ok_device empty_cache ''float'' ''float'' ''lgamma'' =
     (Inr (Pipeline 1 (Library 0 ''float'' ''float'') ''lgamma''),
      \<lparr>libMap = [''floatfloat'' \<mapsto> Library 0 ''float'' ''float''],
       cplMap = [''floatfloatlgamma'' \<mapsto> Pipeline 1 (Library 0 ''float'' ''float'') ''lgamma''],
       next_handle = 2, compiled = [(''float'', ''float'')]\<rparr>)"
  by (simp add: getCPLState_def compileGammaOpsLibrary_def Let_def empty_cache_def ok_device_def
      template_kernels_def)

theorem pipeline_cached_once_witness:
  "getCPLState ok_device
     (calls ok_device (snd (getCPLState ok_device empty_cache ''float'' ''float'' ''lgamma''))
        [(''half'', ''half'', ''digamma''), (''float'', ''float'', ''lgamma'')])
     ''float'' ''float'' ''lgamma'' =
   (Inr (Pipeline 1 (Library 0 ''float'' ''float'') ''lgamma''),
    calls ok_device (snd (getCPLState ok_device empty_cache ''float'' ''float'' ''lgamma''))
      [(''half'', ''half'', ''digamma''), (''float'', ''float'', ''lgamma'')]) \<and>
   reachable ok_device (snd (getCPLState ok_device empty_cache ''float'' ''float'' ''lgamma'')) \<and>
   count_list (compiled (snd (getCPLState ok_device empty_cache ''float'' ''float'' ''lgamma'')))
     (''float'', ''float'') \<le> 1"
  using pipeline_cached_once [of ok_device empty_cache "''float''" "''float''" "''lgamma''"
      "Pipeline 1 (Library 0 ''float'' ''float'') ''lgamma''"
      "snd (getCPLState ok_device empty_cache ''float'' ''float'' ''lgamma'')"
      "[(''half'', ''half'', ''digamma''), (''float'', ''float'', ''lgamma'')]"]
    pipeline_cached_once [of ok_device "snd (getCPLState ok_device empty_cache ''float'' ''float'' ''lgamma'')"
      "''float''" "''float''" "''lgamma''"]
    reachable.call [OF reachable.start, of ok_device "''float''" "''float''" "''lgamma''"]
  by (simp add: ok_call)

section \<open>The sign of the polygamma kernel\<close>

lemma float_of_int_units: "float_of_int 1 = Fin 1" "float_of_int (- 1) = Fin (- 1)"
  by (simp_all add: fl_eval)

lemma smod_2_odd: "(k::int) smod 2 \<noteq> 0 \<longleftrightarrow> odd k"
  unfolding smod_int_alt_def sgn_if by (simp add: odd_iff_mod_2_eq_one) presburger

lemma polygamma_unfold:
  "polygamma L order x =
     map_option
       (fmul (fmul (float_of_int (if sint order smod 2 \<noteq> 0 then 1 else - 1))
          (Gamma L (fadd (float_of_int (sint order)) (Fin 1)))))
       (calc_zeta L (fadd (float_of_int (sint order)) (Fin 1)) x)"
  by (simp add: polygamma_def Let_def split: option.splits)

lemma order_2: "fadd (float_of_int (sint (2 :: 64 word))) (Fin 1) = Fin 3"
  by (simp add: fl_eval)

lemma calc_zeta_3_minus_1: "calc_zeta L (Fin 3) (Fin (- 1)) = Some PInf"
  by (simp add: calc_zeta_def flt_def feq_def fle_def is_inf_def ftrunc_negative_integers
      del: ftrunc.simps)

text \<open>
  C1, as the claim has it, fails: at order 2 and \<open>x = -1\<close> the kernel writes minus infinity,
  and the claim's formula, with the factor +1 for an even order, gives plus infinity.
\<close>

theorem polygamma_sign_counterexample:
  "polygamma nan_lib 2 (Fin (- 1)) = Some NInf \<and>
   map_option (fmul (fmul (Fin 1) (Gamma nan_lib (fadd (float_of_int (sint (2 :: 64 word))) (Fin 1)))))
     (calc_zeta nan_lib (fadd (float_of_int (sint (2 :: 64 word))) (Fin 1)) (Fin (- 1))) = Some PInf"
  unfolding polygamma_unfold order_2 Gamma_3 calc_zeta_3_minus_1
  by (simp add: fl_eval)

text \<open>
  C1, amended. For every input element \<open>x\<close> and every order \<open>>= 2\<close>, the polygamma kernel
  computes the sign factor times \<^verbatim>\<open>Gamma(n + 1)\<close> times \<^verbatim>\<open>calc_zeta(n + 1, x)\<close>, where \<open>n\<close>
  is the order as a \<^verbatim>\<open>float\<close> and the sign factor is -1 when the order is even and +1
  when it is odd.
\<close>

theorem polygamma_sign:
  "2 \<le> sint order \<Longrightarrow>
   polygamma L order x =
     map_option
       (fmul (fmul (Fin (if even (sint order) then - 1 else 1))
          (Gamma L (fadd (float_of_int (sint order)) (Fin 1)))))
       (calc_zeta L (fadd (float_of_int (sint order)) (Fin 1)) x)"
  by (simp add: polygamma_unfold smod_2_odd float_of_int_units)

theorem polygamma_sign_witness:
  "(2::int) \<le> sint (2 :: 64 word) \<and>
   polygamma nan_lib 2 (Fin (- 1)) =
     map_option (fmul (fmul (Fin (- 1)) (Gamma nan_lib (fadd (float_of_int (sint (2 :: 64 word))) (Fin 1)))))
       (calc_zeta nan_lib (fadd (float_of_int (sint (2 :: 64 word))) (Fin 1)) (Fin (- 1)))"
  using polygamma_sign [of 2 nan_lib "Fin (- 1)"] by simp

section \<open>The checks of the entry points\<close>

text \<open>
  C6. Each of the three entry points raises, with its message, when the input's scalar type
  is \<open>Double\<close>, and \<^verbatim>\<open>polygamma_out_mps\<close> raises as well when the order is negative; the
  cache and the output tensor are then what they were before the call.
\<close>

theorem entry_points_reject:
  "(scalar_type self = Double \<longrightarrow>
      lgamma_out_mps B st self out =
        Some (Inl (Error ''MPS does not support lgamma_out op with scalar type: Double''), st, out) \<and>
      digamma_out_mps B st self out =
        Some (Inl (Error ''MPS does not support digamma_out op with scalar type: Double''), st, out) \<and>
      polygamma_out_mps B st order self out =
        Some (Inl (Error ''MPS does not support polygamma_out op with scalar type: Double''), st, out)) \<and>
   (sint order < 0 \<longrightarrow> (\<exists>e. polygamma_out_mps B st order self out = Some (Inl e, st, out))) \<and>
   (sint order < 0 \<and> scalar_type self \<noteq> Double \<longrightarrow>
      polygamma_out_mps B st order self out =
        Some (Inl (Error ''Polygamma is implemented only for nonnegative real numbers''), st, out))"
  by (simp add: lgamma_out_mps_def digamma_out_mps_def polygamma_out_mps_def)

theorem entry_points_reject_witness:
  "lgamma_out_mps ok_backend empty_cache
     \<lparr>scalar_type = Double, storage = [Fin 1], places = [0]\<rparr>
     \<lparr>scalar_type = Float, storage = [Fin 7], places = [0]\<rparr> =
     Some (Inl (Error ''MPS does not support lgamma_out op with scalar type: Double''), empty_cache,
       \<lparr>scalar_type = Float, storage = [Fin 7], places = [0]\<rparr>) \<and>
   polygamma_out_mps ok_backend empty_cache (- 1)
     \<lparr>scalar_type = Float, storage = [Fin 1], places = [0]\<rparr>
     \<lparr>scalar_type = Float, storage = [Fin 7], places = [0]\<rparr> =
     Some (Inl (Error ''Polygamma is implemented only for nonnegative real numbers''), empty_cache,
       \<lparr>scalar_type = Float, storage = [Fin 7], places = [0]\<rparr>)"
  using entry_points_reject [of "\<lparr>scalar_type = Double, storage = [Fin 1], places = [0]\<rparr>"
      ok_backend empty_cache "\<lparr>scalar_type = Float, storage = [Fin 7], places = [0]\<rparr>" 0]
    entry_points_reject [of "\<lparr>scalar_type = Float, storage = [Fin 1], places = [0]\<rparr>"
      ok_backend empty_cache "\<lparr>scalar_type = Float, storage = [Fin 7], places = [0]\<rparr>" "- 1"]
  by simp

section \<open>Rounding\<close>

subsection \<open>The binade\<close>

lemma binade_ge: "- 126 \<le> binade r"
  by (simp add: binade_def)

lemma pow2_le_of_int: "(2::int) ^ m \<le> n \<Longrightarrow> (2::real) ^ m \<le> of_int n"
proof -
  assume "(2::int) ^ m \<le> n"
  then have "real_of_int (2 ^ m) \<le> real_of_int n" by (simp only: of_int_le_iff)
  then show ?thesis by simp
qed

lemma of_int_less_pow2: "n < (2::int) ^ m \<Longrightarrow> real_of_int n + 1 \<le> 2 ^ m"
proof -
  assume "n < (2::int) ^ m"
  then have "n + 1 \<le> 2 ^ m" by simp
  then have "real_of_int (n + 1) \<le> real_of_int (2 ^ m)" by (simp only: of_int_le_iff)
  then show ?thesis by simp
qed

lemma ilog_ge_one:
  fixes r :: real
  assumes "1 \<le> r"
  shows "2 powi (bitlen \<lfloor>r\<rfloor> - 1) \<le> r \<and> r < 2 powi (bitlen \<lfloor>r\<rfloor> - 1 + 1)"
proof -
  have p: "0 < \<lfloor>r\<rfloor>" using assms by simp
  have b: "2 ^ nat (bitlen \<lfloor>r\<rfloor> - 1) \<le> \<lfloor>r\<rfloor>" "\<lfloor>r\<rfloor> < 2 ^ nat (bitlen \<lfloor>r\<rfloor>)"
    using bitlen_bounds [OF p] by simp_all
  have bl: "1 \<le> bitlen \<lfloor>r\<rfloor>"
    using p bitlen_eq_zero_iff [of "\<lfloor>r\<rfloor>"] bitlen_nonneg [of "\<lfloor>r\<rfloor>"] by linarith
  have fl: "real_of_int \<lfloor>r\<rfloor> \<le> r" "r < real_of_int \<lfloor>r\<rfloor> + 1"
    by linarith+
  have l: "2 ^ nat (bitlen \<lfloor>r\<rfloor> - 1) \<le> r"
    using pow2_le_of_int [OF b(1)] fl(1) by linarith
  have u: "r < 2 ^ nat (bitlen \<lfloor>r\<rfloor>)"
    using of_int_less_pow2 [OF b(2)] fl(2) by linarith
  show ?thesis
    using l u bl by (simp add: power_int_def)
qed

lemma ilog_below_one:
  fixes r :: real
  assumes "0 < r" "r < 1"
  shows "2 powi (- bitlen (\<lceil>1 / r\<rceil> - 1)) \<le> r \<and> r < 2 powi (- bitlen (\<lceil>1 / r\<rceil> - 1) + 1)"
proof -
  define n where "n = \<lceil>1 / r\<rceil> - 1"
  define k where "k = bitlen n"
  have inv: "1 < 1 / r" using assms by simp
  then have "1 < \<lceil>1 / r\<rceil>" by (simp add: less_ceiling_iff)
  then have p: "0 < n" by (simp add: n_def)
  have b: "2 ^ nat (k - 1) \<le> n" "n < 2 ^ nat k"
    using bitlen_bounds [OF p] by (simp_all add: k_def)
  have kl: "1 \<le> k"
    using p bitlen_eq_zero_iff [of n] bitlen_nonneg [of n] unfolding k_def by linarith
  have n1: "real_of_int n < 1 / r" "1 / r \<le> real_of_int n + 1"
    unfolding n_def by linarith+
  have "1 / r \<le> 2 ^ nat k"
    using of_int_less_pow2 [OF b(2)] n1(2) by linarith
  then have l: "1 / 2 ^ nat k \<le> r"
    using assms(1) by (simp add: field_simps)
  have "2 ^ nat (k - 1) < 1 / r"
    using pow2_le_of_int [OF b(1)] n1(1) by linarith
  then have u: "r < 1 / 2 ^ nat (k - 1)"
    using assms(1) by (simp add: field_simps)
  have e1: "(2::real) powi (- k) = 1 / 2 ^ nat k"
    using kl by (simp add: power_int_def inverse_eq_divide power_one_over)
  have e2: "(2::real) powi (- k + 1) = 1 / 2 ^ nat (k - 1)"
  proof -
    have "- k + 1 = - (k - 1)" by simp
    then have "(2::real) powi (- k + 1) = 2 powi (- (k - 1))" by simp
    also have "\<dots> = 1 / 2 powi (k - 1)" by (rule power_int_minus_divide)
    also have "\<dots> = 1 / 2 ^ nat (k - 1)" using kl by (simp add: power_int_def)
    finally show ?thesis .
  qed
  have "2 powi (- k) \<le> r \<and> r < 2 powi (- k + 1)"
    using l u by (simp only: e1 e2)
  then show ?thesis
    by (simp only: k_def n_def)
qed

lemma binade_bounds:
  assumes "0 < r"
  shows "r < 2 powi (binade r + 1)" and "2 powi (- 126) \<le> r \<Longrightarrow> 2 powi (binade r) \<le> r"
proof -
  define e where "e = (if 1 \<le> r then bitlen \<lfloor>r\<rfloor> - 1 else - bitlen (\<lceil>1 / r\<rceil> - 1))"
  have b: "binade r = max (- 126) e" by (simp add: binade_def e_def)
  have eb: "2 powi e \<le> r \<and> r < 2 powi (e + 1)"
    using ilog_ge_one [of r] ilog_below_one [of r] assms by (cases "1 \<le> r") (simp_all add: e_def)
  have "(2::real) powi (e + 1) \<le> 2 powi (binade r + 1)"
    by (rule power_int_increasing) (simp_all add: b)
  then show "r < 2 powi (binade r + 1)" using eb by simp
  show "2 powi (binade r) \<le> r" if h: "2 powi (- 126) \<le> r"
  proof (cases "- 126 \<le> e")
    case True
    then show ?thesis using eb by (simp add: b max_def)
  next
    case False
    then have "(2::real) powi (e + 1) \<le> 2 powi (- 126)"
      by (intro power_int_increasing) simp_all
    then show ?thesis using eb h by simp
  qed
qed

lemma binade_eqI:
  assumes "2 powi e \<le> r" "r < 2 powi (e + 1)" "- 126 \<le> e"
  shows "binade r = e"
proof -
  have pos: "0 < r" using assms(1) by (rule less_le_trans [rotated]) simp
  have "(2::real) powi (- 126) \<le> 2 powi e"
    using assms(3) by (intro power_int_increasing) simp_all
  then have n: "2 powi (- 126) \<le> r" using assms(1) by simp
  note bb = binade_bounds(1) [OF pos] binade_bounds(2) [OF pos n]
  have "\<not> e + 1 \<le> binade r"
  proof
    assume "e + 1 \<le> binade r"
    then have "(2::real) powi (e + 1) \<le> 2 powi (binade r)"
      by (intro power_int_increasing) simp_all
    then show False using bb assms by simp
  qed
  moreover have "\<not> binade r + 1 \<le> e"
  proof
    assume "binade r + 1 \<le> e"
    then have "(2::real) powi (binade r + 1) \<le> 2 powi e"
      by (intro power_int_increasing) simp_all
    then show False using bb assms by simp
  qed
  ultimately show ?thesis by simp
qed

lemma binade_small:
  assumes "0 < r" "r < 2 powi (- 126)"
  shows "binade r = - 126"
proof (rule ccontr)
  assume "binade r \<noteq> - 126"
  then have g: "- 126 < binade r" using binade_ge [of r] by simp
  define e where "e = (if 1 \<le> r then bitlen \<lfloor>r\<rfloor> - 1 else - bitlen (\<lceil>1 / r\<rceil> - 1))"
  have b: "binade r = max (- 126) e" by (simp add: binade_def e_def)
  have eb: "2 powi e \<le> r \<and> r < 2 powi (e + 1)"
    using ilog_ge_one [of r] ilog_below_one [of r] assms by (cases "1 \<le> r") (simp_all add: e_def)
  have "- 126 \<le> e" using g b by simp
  then have "(2::real) powi (- 126) \<le> 2 powi e"
    by (intro power_int_increasing) simp_all
  then show False using eb assms by simp
qed

lemma binade_mono:
  assumes "0 < r" "r \<le> s"
  shows "binade r \<le> binade s"
proof (rule ccontr)
  assume "\<not> binade r \<le> binade s"
  then have g: "binade s + 1 \<le> binade r" by simp
  then have "- 126 < binade r" using binade_ge [of s] by simp
  then have "\<not> r < 2 powi (- 126)" using binade_small [OF assms(1)] by auto
  then have "2 powi (binade r) \<le> r" using binade_bounds(2) [OF assms(1)] by simp
  moreover have "s < 2 powi (binade s + 1)" using binade_bounds(1) [of s] assms by simp
  moreover have "(2::real) powi (binade s + 1) \<le> 2 powi (binade r)"
    using g by (intro power_int_increasing) simp_all
  ultimately show False using assms(2) by simp
qed

subsection \<open>Rounding to an integer\<close>

lemma round_even_floor: "\<lfloor>x\<rfloor> \<le> round_even x" "round_even x \<le> \<lfloor>x\<rfloor> + 1"
  by (simp_all add: round_even_def Let_def)

lemma round_even_of_int: "round_even (of_int n) = n"
  by (simp add: round_even_def)

lemma round_even_mono:
  assumes "x \<le> y"
  shows "round_even x \<le> round_even y"
proof (cases "\<lfloor>x\<rfloor> = \<lfloor>y\<rfloor>")
  case True
  then show ?thesis
    using assms by (auto simp: round_even_def Let_def)
next
  case False
  then have "\<lfloor>x\<rfloor> + 1 \<le> \<lfloor>y\<rfloor>"
    using floor_mono [OF assms] by simp
  then show ?thesis
    using round_even_floor(2) [of x] round_even_floor(1) [of y] by simp
qed

lemma round_even_ge: "of_int n \<le> x \<Longrightarrow> n \<le> round_even x"
  using round_even_mono [of "of_int n" x] by (simp add: round_even_of_int)

lemma round_even_le: "x \<le> of_int n \<Longrightarrow> round_even x \<le> n"
  using round_even_mono [of x "of_int n"] by (simp add: round_even_of_int)

lemma round_even_near: "\<bar>of_int (round_even x) - x\<bar> \<le> 1 / 2"
proof -
  have "real_of_int \<lfloor>x\<rfloor> \<le> x" "x < real_of_int \<lfloor>x\<rfloor> + 1"
    by linarith+
  then show ?thesis
    by (auto simp: round_even_def Let_def)
qed


subsection \<open>Rounding a magnitude\<close>

lemma rnd_mag_alt:
  "rnd_mag r = real_of_int (round_even (r / 2 powi (binade r - 23))) * 2 powi (binade r - 23)"
  by (simp add: rnd_mag_def Let_def)

lemma rnd_mag_0: "rnd_mag 0 = 0"
  by (simp add: rnd_mag_alt round_even_def)

lemma rnd_mag_nonneg:
  assumes "0 \<le> r"
  shows "0 \<le> rnd_mag r"
proof -
  have "real_of_int 0 \<le> r / 2 powi (binade r - 23)" using assms by simp
  then have "0 \<le> round_even (r / 2 powi (binade r - 23))" by (rule round_even_ge)
  then show ?thesis by (simp add: rnd_mag_alt)
qed

lemma powi_split: "(2::real) powi (e + int n) = 2 ^ n * 2 powi e"
  by (simp add: power_int_add mult.commute)

lemma powi_binade:
  "(2::real) powi e = 2 ^ 23 * 2 powi (e - 23)"
  "(2::real) powi (e + 1) = 2 ^ 24 * 2 powi (e - 23)"
  using powi_split [of "e - 23" 23] powi_split [of "e - 23" 24] by (simp_all add: add.commute)

lemma rnd_mag_upper:
  assumes "0 < r"
  shows "rnd_mag r \<le> 2 powi (binade r + 1)"
proof -
  define q :: real where "q = 2 powi (binade r - 23)"
  have q: "0 < q" by (simp add: q_def)
  have "r < 2 ^ 24 * q"
    using binade_bounds(1) [OF assms] by (simp only: powi_binade(2) q_def)
  then have "r / q \<le> real_of_int (2 ^ 24)"
    using q by (simp add: field_simps)
  then have "round_even (r / q) \<le> 2 ^ 24" by (rule round_even_le)
  then have "real_of_int (round_even (r / q)) \<le> real_of_int (2 ^ 24)"
    by (simp only: of_int_le_iff)
  then have "real_of_int (round_even (r / q)) * q \<le> 2 ^ 24 * q"
    using q by simp
  then show ?thesis
    by (simp only: rnd_mag_alt powi_binade(2) q_def)
qed

lemma rnd_mag_lower:
  assumes "2 powi (binade r) \<le> r"
  shows "2 powi (binade r) \<le> rnd_mag r"
proof -
  define q :: real where "q = 2 powi (binade r - 23)"
  have q: "0 < q" by (simp add: q_def)
  have pq: "2 powi (binade r) = 2 ^ 23 * q"
    unfolding q_def by (rule powi_binade(1))
  have "2 ^ 23 * q \<le> r"
    using assms by (simp only: pq)
  then have "real_of_int (2 ^ 23) \<le> r / q"
    using q by (simp add: field_simps)
  then have "2 ^ 23 \<le> round_even (r / q)" by (rule round_even_ge)
  then have "real_of_int (2 ^ 23) \<le> real_of_int (round_even (r / q))"
    by (simp only: of_int_le_iff)
  then have "2 ^ 23 * q \<le> real_of_int (round_even (r / q)) * q"
    using q by simp
  then show ?thesis
    by (simp only: rnd_mag_alt pq) (simp only: q_def)
qed

lemma rnd_mag_mono:
  assumes "0 \<le> r" "r \<le> s"
  shows "rnd_mag r \<le> rnd_mag s"
proof (cases "r = 0")
  case True
  then show ?thesis using rnd_mag_nonneg [of s] assms by (simp add: rnd_mag_0)
next
  case False
  then have r: "0 < r" and s: "0 < s" using assms by simp_all
  show ?thesis
  proof (cases "binade r = binade s")
    case True
    have "r / 2 powi (binade s - 23) \<le> s / 2 powi (binade s - 23)"
      using assms(2) by (simp add: divide_right_mono)
    then have "round_even (r / 2 powi (binade s - 23)) \<le> round_even (s / 2 powi (binade s - 23))"
      by (rule round_even_mono)
    then show ?thesis
      by (simp add: rnd_mag_alt True)
  next
    case False
    then have lt: "binade r + 1 \<le> binade s"
      using binade_mono [OF r assms(2)] by simp
    then have "- 126 < binade s" using binade_ge [of r] by simp
    then have "\<not> s < 2 powi (- 126)" using binade_small [OF s] by auto
    then have "2 powi (binade s) \<le> s" using binade_bounds(2) [OF s] by simp
    then have "2 powi (binade s) \<le> rnd_mag s" by (rule rnd_mag_lower)
    moreover have "(2::real) powi (binade r + 1) \<le> 2 powi (binade s)"
      using lt by (intro power_int_increasing) simp_all
    ultimately show ?thesis using rnd_mag_upper [OF r] by simp
  qed
qed

lemma rnd_mag_repr:
  assumes "0 \<le> m" "m < 2 ^ 24" "- 149 \<le> j"
  shows "rnd_mag (of_int m * 2 powi j) = of_int m * 2 powi j"
proof (cases "m = 0")
  case True
  then show ?thesis by (simp add: rnd_mag_0)
next
  case False
  define v :: real where "v = of_int m * 2 powi j"
  define e where "e = binade v"
  have m: "0 < m" using False assms(1) by simp
  then have v: "0 < v" by (simp add: v_def)
  have "real_of_int m + 1 \<le> 2 ^ 24" using assms(2) by (rule of_int_less_pow2)
  then have "real_of_int m < 2 ^ 24" by simp
  then have "v < 2 ^ 24 * 2 powi j" by (simp add: v_def)
  then have vu: "v < 2 powi (j + 24)" using powi_split [of j 24] by simp
  have e: "e \<le> j + 23"
  proof (cases "v < 2 powi (- 126)")
    case True
    then show ?thesis using binade_small [OF v] assms(3) by (simp add: e_def)
  next
    case False
    then have l: "2 powi e \<le> v" using binade_bounds(2) [OF v] by (simp add: e_def)
    show ?thesis
    proof (rule ccontr)
      assume "\<not> e \<le> j + 23"
      then have "(2::real) powi (j + 24) \<le> 2 powi e"
        by (intro power_int_increasing) simp_all
      then show False using l vu by simp
    qed
  qed
  define d where "d = nat (j + 23 - e)"
  have j: "j = (e - 23) + int d" using e by (simp add: d_def)
  have pj: "(2::real) powi j = 2 ^ d * 2 powi (e - 23)"
    using powi_split [of "e - 23" d] j by simp
  have "v / 2 powi (e - 23) = real_of_int (m * 2 ^ d)"
    by (simp add: v_def pj)
  then have "round_even (v / 2 powi (e - 23)) = m * 2 ^ d"
    by (simp only: round_even_of_int)
  then have "rnd_mag v = real_of_int (m * 2 ^ d) * 2 powi (e - 23)"
    by (simp add: rnd_mag_alt e_def)
  also have "\<dots> = v" by (simp add: v_def pj)
  finally show ?thesis by (simp add: v_def)
qed

lemma rnd_mag_idem:
  assumes "0 \<le> r"
  shows "rnd_mag (rnd_mag r) = rnd_mag r"
proof (cases "r = 0")
  case True
  then show ?thesis by (simp add: rnd_mag_0)
next
  case False
  then have r: "0 < r" using assms by simp
  define j where "j = binade r - 23"
  define m where "m = round_even (r / 2 powi j)"
  have v: "rnd_mag r = real_of_int m * 2 powi j"
    by (simp add: rnd_mag_alt m_def j_def)
  have j: "- 149 \<le> j" using binade_ge [of r] by (simp add: j_def)
  have "real_of_int 0 \<le> r / 2 powi j" using assms by simp
  then have m0: "0 \<le> m" unfolding m_def by (rule round_even_ge)
  have "real_of_int m * 2 powi j \<le> 2 ^ 24 * 2 powi j"
    using rnd_mag_upper [OF r] by (simp only: v powi_binade(2) j_def)
  then have "real_of_int m \<le> real_of_int (2 ^ 24)" by simp
  then have m1: "m \<le> 2 ^ 24" by (simp only: of_int_le_iff)
  show ?thesis
  proof (cases "m = 2 ^ 24")
    case True
    have "real_of_int m * 2 powi j = real_of_int (2 ^ 23) * 2 powi (j + 1)"
      using powi_split [of j 1] by (simp add: True)
    moreover have "rnd_mag (real_of_int (2 ^ 23) * 2 powi (j + 1)) = real_of_int (2 ^ 23) * 2 powi (j + 1)"
      using j by (intro rnd_mag_repr) simp_all
    ultimately show ?thesis by (simp only: v)
  next
    case False
    then have "m < 2 ^ 24" using m1 by simp
    then show ?thesis
      unfolding v using m0 j by (intro rnd_mag_repr)
  qed
qed


subsection \<open>Rounding a real\<close>

lemma at_least_simps [simp]:
  "at_least c PInf" "at_least c (Fin m) = (c \<le> m)" "\<not> at_least c NaN" "\<not> at_least c NInf"
  "\<not> at_least c NZero"
  by (simp_all add: at_least_def)

lemma at_least_cases:
  assumes "at_least c x"
  obtains "x = PInf" | m where "x = Fin m" "c \<le> m"
  using assms by (cases x) simp_all

lemma round32_nonneg:
  assumes "0 \<le> v" "rnd_mag v < 2 ^ 128"
  shows "round32 v = Fin (rnd_mag v)"
  using assms by (simp add: round32_def Let_def)

lemma round32_at_least:
  assumes "0 < c" "rnd_mag c = c" "c \<le> v"
  shows "at_least c (round32 v)"
proof -
  have "rnd_mag c \<le> rnd_mag v" using assms by (intro rnd_mag_mono) simp_all
  then have "c \<le> rnd_mag v" by (simp add: assms(2))
  then show ?thesis
    using assms by (simp add: round32_def Let_def)
qed

lemma round32_bounded:
  assumes "0 \<le> v" "v \<le> c" "rnd_mag c = c" "c < 2 ^ 128"
  shows "round32 v = Fin (rnd_mag v) \<and> 0 \<le> rnd_mag v \<and> rnd_mag v \<le> c"
proof -
  have "rnd_mag v \<le> rnd_mag c" using assms by (intro rnd_mag_mono) simp_all
  then have b: "rnd_mag v \<le> c" by (simp add: assms(3))
  then have "rnd_mag v < 2 ^ 128" using assms(4) by simp
  then show ?thesis
    using b round32_nonneg [OF assms(1)] rnd_mag_nonneg [OF assms(1)] by simp
qed

lemma is_f32_round32: "is_f32 (round32 v)"
proof -
  have i: "rnd_mag (rnd_mag \<bar>v\<bar>) = rnd_mag \<bar>v\<bar>" by (rule rnd_mag_idem) simp
  have n: "0 \<le> rnd_mag \<bar>v\<bar>" by (rule rnd_mag_nonneg) simp
  have z: "round32 0 = Fin 0" by (simp add: round32_def rnd_mag_0)
  show ?thesis
    using i n by (auto simp: is_f32_def round32_def Let_def z abs_if)
qed

lemma round32_is_f32: "is_f32 (Fin r) \<Longrightarrow> round32 r = Fin r"
  by (simp add: is_f32_def)

subsection \<open>Bounds through the operations\<close>

lemma fadd_at_least:
  assumes "at_least a x" "at_least b y" "0 < a + b" "rnd_mag (a + b) = a + b"
  shows "at_least (a + b) (fadd x y)"
proof -
  have "at_least (a + b) (round32 (m + n))" if "a \<le> m" "b \<le> n" for m n
    using that assms(3,4) by (intro round32_at_least) simp_all
  then show ?thesis
    using assms(1,2) by (auto simp: fadd_def is_inf_def elim!: at_least_cases)
qed

lemma fmul_at_least:
  assumes "at_least a x" "at_least b y" "0 < a" "0 < b" "rnd_mag (a * b) = a * b"
  shows "at_least (a * b) (fmul x y)"
proof -
  have "at_least (a * b) (round32 (m * n))" if "a \<le> m" "b \<le> n" for m n
  proof -
    have "a * b \<le> m * n" using that assms(3,4) by (intro mult_mono) simp_all
    then show ?thesis using assms(3,4,5) by (intro round32_at_least) simp_all
  qed
  then show ?thesis
    using assms(1-4)
    by (auto simp: fmul_def is_inf_def is_zero_def inf_of_def elim!: at_least_cases)
qed

text \<open>The reciprocal of a value that is at least one is a finite value between zero and one.\<close>

lemma rnd_mag_1: "rnd_mag 1 = 1"
  using rnd_mag_repr [of 1 0] by simp

lemma fdiv_one_at_least:
  assumes "at_least c y" "1 \<le> c"
  shows "\<exists>b. fdiv (Fin 1) y = Fin b \<and> 0 \<le> b \<and> b \<le> 1"
proof -
  have "\<exists>b. round32 (1 / m) = Fin b \<and> 0 \<le> b \<and> b \<le> 1" if "c \<le> m" for m
  proof -
    have "0 \<le> 1 / m" "1 / m \<le> 1" using that assms(2) by simp_all
    then show ?thesis using round32_bounded [of "1 / m" 1] rnd_mag_1 by simp
  qed
  then show ?thesis
    using assms
    by (auto simp: fdiv_def is_inf_def is_zero_def zero_of_def elim!: at_least_cases)
qed

section \<open>The tail of \<^verbatim>\<open>calc_trigamma\<close>\<close>

lemma rnd_mag_halves:
  "rnd_mag (1 / 2) = 1 / 2" "rnd_mag (3 / 2) = 3 / 2" "rnd_mag (5 / 2) = 5 / 2"
  "rnd_mag (7 / 2) = 7 / 2" "rnd_mag (9 / 2) = 9 / 2" "rnd_mag (11 / 2) = 11 / 2"
  "rnd_mag (13 / 2) = 13 / 2" "rnd_mag 13 = 13" "rnd_mag (169 / 4) = 169 / 4"
  using rnd_mag_repr [of 1 "- 1"] rnd_mag_repr [of 3 "- 1"] rnd_mag_repr [of 5 "- 1"]
    rnd_mag_repr [of 7 "- 1"] rnd_mag_repr [of 9 "- 1"] rnd_mag_repr [of 11 "- 1"]
    rnd_mag_repr [of 13 "- 1"] rnd_mag_repr [of 13 0] rnd_mag_repr [of 169 "- 2"]
  by simp_all

lemma round32_1: "round32 1 = Fin 1"
  using round32_nonneg [of 1] by (simp add: rnd_mag_1)

lemma shift_step:
  assumes "nan_or_at_least c x" "0 < c + 1" "rnd_mag (c + 1) = c + 1"
  shows "nan_or_at_least (c + 1) (fadd x (Fin 1))"
proof (cases "x = NaN")
  case True
  then show ?thesis by (simp add: nan_or_at_least_def fadd_def)
next
  case False
  then have "at_least c x" using assms(1) by (simp add: nan_or_at_least_def)
  then have "at_least (c + 1) (fadd x (Fin 1))"
    using assms(2,3) by (intro fadd_at_least) simp_all
  then show ?thesis by (simp add: nan_or_at_least_def)
qed

lemma trigamma_reflect_x:
  "nan_or_at_least (1 / 2) (snd (snd (trigamma_reflect L x)))"
proof (cases "flt x (Fin (1 / 2))")
  case True
  have "at_least (1 / 2) (round32 (1 - r))" if "r < 1 / 2" for r
    using that rnd_mag_halves(1) by (intro round32_at_least) simp_all
  then have "at_least (1 / 2) (fsub (Fin 1) x)"
    using True by (cases x) (auto simp: flt_def fsub_def fadd_def is_inf_def round32_1)
  then show ?thesis
    using True by (simp add: trigamma_reflect_def Let_def nan_or_at_least_def)
next
  case False
  then show ?thesis
    by (cases x) (auto simp: trigamma_reflect_def nan_or_at_least_def flt_def)
qed

lemma trigamma_shift_x:
  assumes "nan_or_at_least (1 / 2) x"
  shows "nan_or_at_least (13 / 2) (snd (trigamma_shift 6 (r, x)))"
proof -
  have s: "snd (trigamma_shift 6 (r, x)) =
      fadd (fadd (fadd (fadd (fadd (fadd x (Fin 1)) (Fin 1)) (Fin 1)) (Fin 1)) (Fin 1)) (Fin 1)"
    by (simp add: eval_nat_numeral)
  have "nan_or_at_least (3 / 2) (fadd x (Fin 1))"
    using shift_step [OF assms] rnd_mag_halves by simp
  then have "nan_or_at_least (5 / 2) (fadd (fadd x (Fin 1)) (Fin 1))"
    using shift_step [of "3 / 2"] rnd_mag_halves by simp
  then have "nan_or_at_least (7 / 2) (fadd (fadd (fadd x (Fin 1)) (Fin 1)) (Fin 1))"
    using shift_step [of "5 / 2"] rnd_mag_halves by simp
  then have "nan_or_at_least (9 / 2) (fadd (fadd (fadd (fadd x (Fin 1)) (Fin 1)) (Fin 1)) (Fin 1))"
    using shift_step [of "7 / 2"] rnd_mag_halves by simp
  then have "nan_or_at_least (11 / 2)
      (fadd (fadd (fadd (fadd (fadd x (Fin 1)) (Fin 1)) (Fin 1)) (Fin 1)) (Fin 1))"
    using shift_step [of "9 / 2"] rnd_mag_halves by simp
  then have "nan_or_at_least (13 / 2)
      (fadd (fadd (fadd (fadd (fadd (fadd x (Fin 1)) (Fin 1)) (Fin 1)) (Fin 1)) (Fin 1)) (Fin 1))"
    using shift_step [of "11 / 2"] rnd_mag_halves by simp
  then show ?thesis by (simp only: s)
qed

lemma int_div_zero: "int_div 1 6 = 0" "int_div 1 3 = 0" "int_div 1 42 = 0"
  by (simp_all add: int_div_def signed_divide_int_def)

lemma float_of_int_0: "float_of_int 0 = Fin 0"
  by (simp add: float_of_int_def round32_def rnd_mag_0)

lemma series_vanishes:
  assumes "0 \<le> i"
  shows "fmul (Fin i)
           (fsub (float_of_int (int_div 1 6))
              (fmul (Fin i)
                 (fsub (float_of_int (int_div 1 3)) (fmul (Fin i) (float_of_int (int_div 1 42)))))) =
         Fin 0"
proof -
  have m: "fmul (Fin i) (Fin 0) = Fin 0"
    using assms by (simp add: fmul_def is_inf_def is_zero_def zero_of_def)
  have s: "fsub (Fin 0) (Fin 0) = Fin 0"
    by (simp add: fsub_def fadd_def is_inf_def round32_def rnd_mag_0)
  show ?thesis
    by (simp only: int_div_zero float_of_int_0 m s)
qed

lemma fadd_zero_right:
  assumes "at_least 1 a" "is_f32 a"
  shows "fadd a (Fin 0) = a"
  using assms by (cases a) (simp_all add: fadd_def is_inf_def round32_is_f32)

lemma is_f32_fadd: "is_f32 (fadd x y)"
  by (cases x; cases y) (simp_all add: fadd_def is_inf_def is_f32_round32, simp_all add: is_f32_def)

lemma trigamma_correction_eq:
  assumes "nan_or_at_least (13 / 2) x"
  shows "trigamma_correction x = fdiv (fadd (Fin 1) (fdiv (Fin 1) (fmul (Fin 2) x))) x"
proof (cases "x = NaN")
  case True
  then show ?thesis
    by (simp add: trigamma_correction_def Let_def fmul_def fdiv_def fadd_def)
next
  case False
  then have x: "at_least (13 / 2) x" using assms by (simp add: nan_or_at_least_def)
  have "at_least (13 / 2 * (13 / 2)) (fmul x x)"
    using x rnd_mag_halves(9) by (intro fmul_at_least) simp_all
  then obtain i where i: "fdiv (Fin 1) (fmul x x) = Fin i" "0 \<le> i"
    using fdiv_one_at_least [of "13 / 2 * (13 / 2)" "fmul x x"] by auto
  have "at_least (2 * (13 / 2)) (fmul (Fin 2) x)"
    using x rnd_mag_halves(8) by (intro fmul_at_least) simp_all
  then obtain b where b: "fdiv (Fin 1) (fmul (Fin 2) x) = Fin b" "0 \<le> b"
    using fdiv_one_at_least [of "2 * (13 / 2)" "fmul (Fin 2) x"] by auto
  have "at_least (1 + 0) (fadd (Fin 1) (Fin b))"
    using b(2) rnd_mag_1 by (intro fadd_at_least) simp_all
  then have "fadd (fadd (Fin 1) (Fin b)) (Fin 0) = fadd (Fin 1) (Fin b)"
    using is_f32_fadd by (intro fadd_zero_right) simp_all
  then show ?thesis
    by (simp add: trigamma_correction_def Let_def i(1) b(1) series_vanishes [OF i(2)])
qed

text \<open>
  C8. In \<^verbatim>\<open>calc_trigamma\<close> the integer divisions \<open>1/6\<close>, \<open>1/3\<close> and \<open>1/42\<close> are 0, and
  for every argument the term added after the six shift steps is exactly
  \<open>(1 + 1/(2*x))/x\<close> at the shifted \<open>x\<close>: the series in \<open>1/x^2\<close> adds nothing.
\<close>

theorem trigamma_series_vanishes:
  "int_div 1 6 = 0 \<and> int_div 1 3 = 0 \<and> int_div 1 42 = 0 \<and>
   calc_trigamma L x0 =
     (case trigamma_reflect L x0 of
        (sign, result0, x1) \<Rightarrow>
          (case trigamma_shift 6 (result0, x1) of
             (result, x) \<Rightarrow>
               fmul sign (fadd result (fdiv (fadd (Fin 1) (fdiv (Fin 1) (fmul (Fin 2) x))) x)))) \<and>
   trigamma_correction (snd (trigamma_shift 6 (snd (trigamma_reflect L x0)))) =
     fdiv (fadd (Fin 1) (fdiv (Fin 1) (fmul (Fin 2) (snd (trigamma_shift 6 (snd (trigamma_reflect L x0)))))))
       (snd (trigamma_shift 6 (snd (trigamma_reflect L x0))))"
proof -
  obtain r x where rx: "snd (trigamma_reflect L x0) = (r, x)" by force
  have "nan_or_at_least (1 / 2) x"
    using trigamma_reflect_x [of L x0] by (simp add: rx)
  then have "nan_or_at_least (13 / 2) (snd (trigamma_shift 6 (r, x)))"
    by (rule trigamma_shift_x)
  then have c: "trigamma_correction (snd (trigamma_shift 6 (r, x))) =
      fdiv (fadd (Fin 1) (fdiv (Fin 1) (fmul (Fin 2) (snd (trigamma_shift 6 (r, x))))))
        (snd (trigamma_shift 6 (r, x)))"
    by (rule trigamma_correction_eq)
  obtain sg where sg: "trigamma_reflect L x0 = (sg, r, x)"
    using rx by (cases "trigamma_reflect L x0") simp
  obtain res y where ry: "trigamma_shift 6 (r, x) = (res, y)" by force
  show ?thesis
    using c by (simp add: calc_trigamma_def sg ry int_div_zero)
qed

section \<open>The shift loop of the digamma kernel\<close>

lemma rnd_mag_of_int: "0 \<le> n \<Longrightarrow> n < 2 ^ 24 \<Longrightarrow> rnd_mag (of_int n) = of_int n"
  using rnd_mag_repr [of n 0] by simp

lemma digamma_rounds_at_least:
  assumes "at_least (of_int n) x" "1 \<le> n" "n + int k < 2 ^ 24"
  shows "at_least (of_int (n + int k)) (snd (digamma_rounds k (r, x)))"
  using assms
proof (induction k arbitrary: n r x)
  case 0
  then show ?case by simp
next
  case (Suc k)
  have "at_least (real_of_int n + 1) (fadd x (Fin 1))"
    using Suc.prems rnd_mag_of_int [of "n + 1"] by (intro fadd_at_least) simp_all
  then have "at_least (real_of_int (n + 1)) (fadd x (Fin 1))" by simp
  then have "at_least (of_int (n + 1 + int k))
      (snd (digamma_rounds k (fsub r (fdiv (Fin 1) x), fadd x (Fin 1))))"
    using Suc.prems by (intro Suc.IH) simp_all
  moreover have "n + 1 + int k = n + int (Suc k)" by simp
  ultimately show ?case by (simp only: digamma_rounds.simps fst_conv snd_conv)
qed

lemma at_least_not_flt: "at_least c x \<Longrightarrow> \<not> flt x (Fin c)"
  by (cases x) (simp_all add: flt_def)

lemma digamma_shift_rounds:
  assumes "\<not> flt (snd (digamma_rounds k s)) (Fin 10)"
    "\<forall>j<k. flt (snd (digamma_rounds j s)) (Fin 10)"
  shows "digamma_shift (fst s) (snd s) = Some (digamma_rounds k s)"
  using assms
proof (induction k arbitrary: s)
  case 0
  then show ?case by (simp add: digamma_shift.simps)
next
  case (Suc k)
  define s' where "s' = (fsub (fst s) (fdiv (Fin 1) (snd s)), fadd (snd s) (Fin 1))"
  have f: "flt (snd s) (Fin 10)" using Suc.prems(2) [rule_format, of 0] by simp
  have "\<forall>j<k. flt (snd (digamma_rounds j s')) (Fin 10)"
    using Suc.prems(2) [rule_format, of "Suc j" for j] by (simp add: s'_def)
  moreover have "\<not> flt (snd (digamma_rounds k s')) (Fin 10)"
    using Suc.prems(1) by (simp add: s'_def)
  ultimately have "digamma_shift (fst s') (snd s') = Some (digamma_rounds k s')"
    by (rule Suc.IH [rotated])
  then show ?case
    using f by (subst digamma_shift.simps) (simp add: s'_def)
qed

lemma digamma_shift_within:
  assumes "\<not> flt (snd (digamma_rounds n s)) (Fin 10)"
  shows "\<exists>k\<le>n. digamma_shift (fst s) (snd s) = Some (digamma_rounds k s) \<and>
    \<not> flt (snd (digamma_rounds k s)) (Fin 10) \<and>
    (\<forall>j<k. flt (snd (digamma_rounds j s)) (Fin 10))"
proof -
  define k where "k = (LEAST k. \<not> flt (snd (digamma_rounds k s)) (Fin 10))"
  have a: "\<not> flt (snd (digamma_rounds k s)) (Fin 10)"
    unfolding k_def using assms by (rule LeastI)
  have b: "k \<le> n" unfolding k_def using assms by (rule Least_le)
  have c: "\<forall>j<k. flt (snd (digamma_rounds j s)) (Fin 10)"
    using not_less_Least [of _ "\<lambda>k. \<not> flt (snd (digamma_rounds k s)) (Fin 10)"]
    by (auto simp: k_def)
  show ?thesis
    using a b c digamma_shift_rounds [OF a c] by blast
qed

lemma reflected_argument:
  assumes "flt x (Fin 0)" "\<not> feq x (ftrunc x)"
  shows "at_least 1 (fsub (Fin 1) x)"
proof -
  have "at_least 1 (round32 (1 - r))" if "r < 0" for r
    using that rnd_mag_1 by (intro round32_at_least) simp_all
  then show ?thesis
    using assms by (cases x) (auto simp: flt_def feq_def is_inf_def fsub_def fadd_def)
qed

text \<open>
  C9, as the claim has it, fails: for the negative non-integer \<open>x = - (1 / 2 ^ 30)\<close> the
  argument \<open>1 - x\<close> of the helper is exactly 1, not greater.
\<close>

lemma one_minus_tiny: "fsub (Fin 1) (Fin (- (1 / 2 ^ 30))) = Fin 1"
  by (simp add: fl_eval)

theorem digamma_reflection_counterexample:
  "flt (Fin (- (1 / 2 ^ 30))) (Fin 0) \<and>
   \<not> feq (Fin (- (1 / 2 ^ 30))) (ftrunc (Fin (- (1 / 2 ^ 30)))) \<and>
   is_f32 (Fin (- (1 / 2 ^ 30))) \<and>
   fsub (Fin 1) (Fin (- (1 / 2 ^ 30))) = Fin 1 \<and>
   \<not> flt (Fin 1) (fsub (Fin 1) (Fin (- (1 / 2 ^ 30))))"
  by (simp add: one_minus_tiny) (simp add: fl_eval is_f32_def)

text \<open>
  C9, amended. For every negative non-integer input \<open>x\<close>, the reflection branch of the
  digamma kernel calls \<^verbatim>\<open>calc_digamma_positive_domain\<close> with the argument \<open>1 - x\<close>, which is
  at least 1 (and finite or plus infinity); the shift loop of the helper then leaves after at
  most 9 rounds, and the kernel returns.
\<close>

theorem digamma_reflection_shift:
  assumes "flt x (Fin 0)" "\<not> feq x (ftrunc x)"
  shows "at_least 1 (fsub (Fin 1) x) \<and>
    (\<exists>k\<le>9. digamma_shift (Fin 0) (fsub (Fin 1) x) = Some (digamma_rounds k (Fin 0, fsub (Fin 1) x)) \<and>
       \<not> flt (snd (digamma_rounds k (Fin 0, fsub (Fin 1) x))) (Fin 10) \<and>
       (\<forall>j<k. flt (snd (digamma_rounds j (Fin 0, fsub (Fin 1) x))) (Fin 10))) \<and>
    (\<exists>y. digamma L x = Some y)"
proof -
  have a: "at_least 1 (fsub (Fin 1) x)" using assms by (rule reflected_argument)
  then have "at_least (of_int (1 + int 9)) (snd (digamma_rounds 9 (Fin 0, fsub (Fin 1) x)))"
    by (intro digamma_rounds_at_least) simp_all
  then have "\<not> flt (snd (digamma_rounds 9 (Fin 0, fsub (Fin 1) x))) (Fin 10)"
    using at_least_not_flt [of 10] by simp
  from digamma_shift_within [OF this]
  have k: "\<exists>k\<le>9. digamma_shift (Fin 0) (fsub (Fin 1) x) = Some (digamma_rounds k (Fin 0, fsub (Fin 1) x)) \<and>
       \<not> flt (snd (digamma_rounds k (Fin 0, fsub (Fin 1) x))) (Fin 10) \<and>
       (\<forall>j<k. flt (snd (digamma_rounds j (Fin 0, fsub (Fin 1) x))) (Fin 10))"
    by simp
  then obtain s where "digamma_shift (Fin 0) (fsub (Fin 1) x) = Some s" by blast
  then have "\<exists>y. digamma L x = Some y"
    using assms
    by (cases s) (simp add: digamma_def calc_digamma_positive_domain_def Let_def)
  then show ?thesis using a k by blast
qed

theorem digamma_reflection_shift_witness:
  "flt (Fin (- (1 / 2))) (Fin 0) \<and> \<not> feq (Fin (- (1 / 2))) (ftrunc (Fin (- (1 / 2)))) \<and>
   at_least 1 (fsub (Fin 1) (Fin (- (1 / 2)))) \<and>
   (\<exists>y. digamma nan_lib (Fin (- (1 / 2))) = Some y)"
proof -
  have h: "flt (Fin (- (1 / 2))) (Fin 0)" "\<not> feq (Fin (- (1 / 2))) (ftrunc (Fin (- (1 / 2))))"
    by (simp_all add: flt_def feq_def is_inf_def)
  show ?thesis
    using h digamma_reflection_shift [OF h, of nan_lib] by simp
qed

section \<open>The summation loop of \<^verbatim>\<open>calc_zeta\<close>\<close>

lemma sint_succ_32:
  fixes i :: "32 word"
  assumes "sint i < 9"
  shows "sint (i + 1) = sint i + 1"
proof -
  have "- (2 ^ 31) \<le> sint i" using sint_ge [of i] by simp
  then have "signed_take_bit 31 (sint i + 1) = sint i + 1"
    using assms by (intro signed_take_bit_int_eq_self) simp_all
  then show ?thesis by (simp add: sint_word_add)
qed

lemma counter_bound:
  fixes i :: "32 word"
  shows "zeta_count i < 2 ^ 32"
proof -
  have "- (2 ^ 31) \<le> sint i" using sint_ge [of i] by simp
  then show ?thesis by (auto simp: zeta_count_def)
qed

lemma counter_step:
  fixes i :: "32 word"
  assumes "sint i < 9"
  shows "zeta_count (i + 1) < zeta_count i"
  using assms by (simp add: zeta_count_def sint_succ_32)

text \<open>One more than a real not above 9 and not below \<open>- (2 ^ 23)\<close> rounds to a finite value
  that is not below the integer above the real.\<close>

lemma round32_succ:
  assumes "- (2 ^ 23) \<le> r" "r \<le> 9"
  shows "(round32 (r + 1) = NZero \<and> \<lfloor>r\<rfloor> + 1 \<le> 0) \<or>
         (\<exists>m. round32 (r + 1) = Fin m \<and> of_int (\<lfloor>r\<rfloor> + 1) \<le> m)"
proof -
  define k where "k = \<lfloor>r\<rfloor> + 1"
  have kv: "real_of_int k \<le> r + 1" unfolding k_def by linarith
  have "- 8388608 \<le> r" using assms(1) by simp
  then have "- 8388608 \<le> \<lfloor>r\<rfloor>" by linarith
  then have kl: "- 8388607 \<le> k" unfolding k_def by linarith
  have "\<lfloor>r\<rfloor> \<le> 9" using assms(2) by linarith
  then have ku: "k \<le> 10" unfolding k_def by simp
  have r11: "rnd_mag 11 = 11" using rnd_mag_repr [of 11 0] by simp
  show ?thesis
  proof (cases "0 \<le> r + 1")
    case True
    have b: "round32 (r + 1) = Fin (rnd_mag (r + 1)) \<and> 0 \<le> rnd_mag (r + 1)"
      using round32_bounded [OF True, of 11] assms(2) r11 by simp
    show ?thesis
    proof (cases "0 < k")
      case True
      have "rnd_mag (of_int k) = of_int k"
        using True ku by (intro rnd_mag_of_int) simp_all
      moreover have "rnd_mag (of_int k) \<le> rnd_mag (r + 1)"
        using True kv by (intro rnd_mag_mono) simp_all
      ultimately show ?thesis using b by (simp add: k_def)
    next
      case False
      then have "real_of_int k \<le> 0" by simp
      then show ?thesis using b unfolding k_def by (intro disjI2) (auto simp: algebra_simps)
    qed
  next
    case False
    then have neg: "r + 1 < 0" by simp
    then have "real_of_int k < 0" using kv by linarith
    then have k0: "k < 0" by simp
    have "rnd_mag (of_int (- k)) = of_int (- k)"
      using k0 kl by (intro rnd_mag_of_int) simp_all
    moreover have "rnd_mag \<bar>r + 1\<bar> \<le> rnd_mag (of_int (- k))"
      using neg kv by (intro rnd_mag_mono) simp_all
    ultimately have m: "rnd_mag \<bar>r + 1\<bar> \<le> - real_of_int k" by simp
    have "real_of_int (- 8388607) \<le> real_of_int k" using kl by (simp only: of_int_le_iff)
    then have "- real_of_int k \<le> 2 ^ 23" by simp
    then have "rnd_mag \<bar>r + 1\<bar> < 2 ^ 128" using m by simp
    then show ?thesis
      using m neg k0 by (auto simp: round32_def Let_def k_def)
  qed
qed


lemma fle_Fin: "fle (Fin r) (Fin c) \<longleftrightarrow> r \<le> c"
  by (auto simp: fle_def flt_def feq_def is_inf_def)

lemma measure_less:
  assumes "d' < d \<or> (d' = d \<and> c' < c)" "c' < (2::nat) ^ 32"
  shows "d' * 2 ^ 32 + c' < d * 2 ^ 32 + c"
proof (cases "d' < d")
  case True
  then have "Suc d' \<le> d" by simp
  then have "Suc d' * 2 ^ 32 \<le> d * 2 ^ 32" by (rule mult_le_mono1)
  then show ?thesis using assms(2) by simp
next
  case False
  then show ?thesis using assms(1) by simp
qed

lemma zeta_step:
  assumes "zeta_ok a" "sint i < 9 \<or> fle a (Fin 9)"
  shows "zeta_ok (fadd a (Fin 1)) \<and> zeta_measure (fadd a (Fin 1)) (i + 1) < zeta_measure a i"
proof -
  have "zeta_ok (fadd a (Fin 1)) \<and>
      (zeta_dist (fadd a (Fin 1)) < zeta_dist a \<or>
       (zeta_dist (fadd a (Fin 1)) = zeta_dist a \<and> \<not> fle a (Fin 9)))"
  proof (cases a)
    case NaN
    then show ?thesis by (simp add: fadd_def zeta_ok_def zeta_dist_def fle_def flt_def feq_def)
  next
    case PInf
    then show ?thesis
      by (simp add: fadd_def is_inf_def zeta_ok_def zeta_dist_def fle_def flt_def feq_def)
  next
    case NInf
    then show ?thesis using assms(1) by (simp add: zeta_ok_def)
  next
    case NZero
    then show ?thesis
      by (simp add: fadd_def is_inf_def round32_1 zeta_ok_def zeta_dist_def fle_Fin)
        (simp add: fle_def flt_def feq_def is_inf_def)
  next
    case (Fin r)
    then have r: "- (2 ^ 23) \<le> r" using assms(1) by (simp add: zeta_ok_def)
    have e: "fadd a (Fin 1) = round32 (r + 1)" by (simp add: Fin fadd_def is_inf_def)
    show ?thesis
    proof (cases "r \<le> 9")
      case True
      have d: "zeta_dist a = nat (10 - \<lfloor>r\<rfloor>)" using True by (simp add: zeta_dist_def Fin fle_Fin)
      have f: "\<lfloor>r\<rfloor> \<le> 9" using True by linarith
      from round32_succ [OF r True] show ?thesis
      proof
        assume z: "round32 (r + 1) = NZero \<and> \<lfloor>r\<rfloor> + 1 \<le> 0"
        have "zeta_dist NZero = 10"
          by (simp add: zeta_dist_def fle_def flt_def feq_def is_inf_def)
        moreover have "10 < nat (10 - \<lfloor>r\<rfloor>)" using z by linarith
        ultimately show ?thesis using z by (simp add: e d zeta_ok_def)
      next
        assume "\<exists>m. round32 (r + 1) = Fin m \<and> real_of_int (\<lfloor>r\<rfloor> + 1) \<le> m"
        then obtain m where m: "round32 (r + 1) = Fin m" "real_of_int (\<lfloor>r\<rfloor> + 1) \<le> m"
          by blast
        have fm: "\<lfloor>r\<rfloor> + 1 \<le> \<lfloor>m\<rfloor>" using m(2) by (simp only: le_floor_iff)
        have "- 8388608 \<le> r" using r by simp
        then have "- 8388608 \<le> \<lfloor>r\<rfloor>" by linarith
        then have "- 8388607 \<le> \<lfloor>m\<rfloor>" using fm by linarith
        then have "- 8388607 \<le> m" by linarith
        then have ok: "zeta_ok (Fin m)" by (simp add: zeta_ok_def)
        have "zeta_dist (Fin m) < nat (10 - \<lfloor>r\<rfloor>)"
          using fm f by (auto simp: zeta_dist_def fle_Fin)
        then show ?thesis using ok by (simp add: e d m(1))
      qed
    next
      case False
      then have a9: "\<not> fle a (Fin 9)" "zeta_dist a = 0"
        by (simp_all add: Fin fle_Fin zeta_dist_def)
      have inf: "zeta_ok PInf" "zeta_dist PInf = 0"
        by (simp_all add: zeta_ok_def zeta_dist_def fle_def flt_def feq_def is_inf_def)
      have "at_least 10 (round32 (r + 1))"
        using False rnd_mag_of_int [of 10] by (intro round32_at_least) simp_all
      then show ?thesis
      proof (cases rule: at_least_cases)
        case 1
        then show ?thesis using a9 inf by (simp add: e)
      next
        case (2 m)
        then have "zeta_ok (Fin m)" "zeta_dist (Fin m) = 0"
          by (simp_all add: zeta_ok_def zeta_dist_def fle_Fin)
        then show ?thesis using a9 2 by (simp add: e)
      qed
    qed
  qed
  then show ?thesis
    using assms(2) counter_step [of i] counter_bound [of "i + 1"]
    unfolding zeta_measure_def by (auto intro!: measure_less)
qed

lemma zeta_sum_terminates:
  assumes "zeta_ok a"
  shows "\<exists>r. zeta_sum L x s a i b = Some r"
  using assms
proof (induction "zeta_measure a i" arbitrary: s a i b rule: less_induct)
  case less
  show ?case
  proof (cases "sint i < 9 \<or> fle a (Fin 9)")
    case False
    then show ?thesis by (subst zeta_sum.simps) simp
  next
    case True
    note st = zeta_step [OF less.prems True]
    have "\<exists>r. zeta_sum L x s' (fadd a (Fin 1)) (i + 1) b' = Some r" for s' b'
      using st by (intro less.hyps) simp_all
    then show ?thesis
      using True by (subst zeta_sum.simps) (simp add: Let_def)
  qed
qed


lemma is_f32_magnitude:
  assumes "is_f32 (Fin r)"
  shows "rnd_mag \<bar>r\<bar> = \<bar>r\<bar>"
proof (cases "r = 0")
  case True
  then show ?thesis by (simp add: rnd_mag_0)
next
  case False
  then show ?thesis
    using assms by (auto simp: is_f32_def round32_def Let_def split: if_splits)
qed

lemma large_is_integer:
  assumes "rnd_mag v = v" "2 ^ 23 \<le> v"
  shows "\<exists>k::int. v = of_int k"
proof -
  have "binade (2 ^ 23) = 23" by (rule binade_eqI) simp_all
  then have e: "23 \<le> binade v"
    using binade_mono [of "2 ^ 23" v] assms(2) by simp
  then have "(2::real) powi (binade v - 23) = 2 ^ nat (binade v - 23)"
    by (simp add: power_int_def)
  then have "rnd_mag v =
      real_of_int (round_even (v / 2 powi (binade v - 23)) * 2 ^ nat (binade v - 23))"
    by (simp add: rnd_mag_alt)
  then show ?thesis using assms(1) by metis
qed

lemma non_integer_bounded:
  assumes "is_f32 (Fin r)" "\<not> feq (Fin r) (ftrunc (Fin r))"
  shows "- (2 ^ 23) \<le> r"
proof (rule ccontr)
  assume "\<not> - (2 ^ 23) \<le> r"
  then have "2 ^ 23 \<le> \<bar>r\<bar>" by simp
  then obtain k :: int where "\<bar>r\<bar> = of_int k"
    using large_is_integer [OF is_f32_magnitude [OF assms(1)]] by blast
  then have "r = of_int k \<or> r = of_int (- k)" by (simp add: abs_if split: if_splits)
  then have "feq (Fin r) (ftrunc (Fin r))"
    using ftrunc_of_int feq_refl_Fin by (metis (full_types))
  then show False using assms(2) by simp
qed

text \<open>
  C10. For every pair of \<^verbatim>\<open>float\<close>s \<open>x\<close> and \<open>q\<close> that passes the checks of \<^verbatim>\<open>calc_zeta\<close>
  (\<open>x > 1\<close>, and \<open>q > 0\<close> or \<open>q\<close> not an integer with \<open>x\<close> an integer), the summation
  loop ends, by its \<^verbatim>\<open>return\<close> or by its condition, and \<^verbatim>\<open>calc_zeta\<close> returns. Each round
  moves \<open>a\<close> up by 1, up to rounding, and counts in \<open>i\<close>.
\<close>

theorem zeta_summation_terminates:
  assumes "flt (Fin 1) x" "flt (Fin 0) q \<or> (\<not> feq q (ftrunc q) \<and> feq x (ftrunc x))" "is_f32 q"
  shows "(\<exists>r. zeta_sum L x (m_pow L q (fneg x)) q 0 (Fin 0) = Some r) \<and>
         (\<exists>y. calc_zeta L x q = Some y)"
proof -
  have "zeta_ok q"
  proof (cases q)
    case (Fin r)
    show ?thesis
    proof (cases "flt (Fin 0) q")
      case True
      then show ?thesis by (simp add: Fin flt_def zeta_ok_def)
    next
      case False
      then have "\<not> feq (Fin r) (ftrunc (Fin r))" using assms(2) by (simp add: Fin)
      then have "- (2 ^ 23) \<le> r" using assms(3) by (intro non_integer_bounded) (simp_all add: Fin)
      then show ?thesis by (simp add: Fin zeta_ok_def)
    qed
  next
    case NInf
    then show ?thesis using assms(2) by (simp add: flt_def feq_def is_inf_def)
  qed (simp_all add: zeta_ok_def)
  then have t: "\<exists>r. zeta_sum L x (m_pow L q (fneg x)) q 0 (Fin 0) = Some r"
    by (rule zeta_sum_terminates)
  then have "\<exists>y. calc_zeta L x q = Some y"
    by (auto simp: calc_zeta_def Let_def split: sum.splits prod.splits)
  then show ?thesis using t by simp
qed

theorem zeta_summation_terminates_witness:
  "flt (Fin 1) (Fin 2) \<and> \<not> feq (Fin (- (1 / 2))) (ftrunc (Fin (- (1 / 2)))) \<and>
   feq (Fin 2) (ftrunc (Fin 2)) \<and> is_f32 (Fin (- (1 / 2))) \<and>
   (\<exists>r. zeta_sum nan_lib (Fin 2) (m_pow nan_lib (Fin (- (1 / 2))) (fneg (Fin 2))) (Fin (- (1 / 2))) 0
      (Fin 0) = Some r) \<and>
   (\<exists>y. calc_zeta nan_lib (Fin 2) (Fin (- (1 / 2))) = Some y)"
proof -
  have h: "flt (Fin 1) (Fin 2)"
    "flt (Fin 0) (Fin (- (1 / 2))) \<or>
      (\<not> feq (Fin (- (1 / 2))) (ftrunc (Fin (- (1 / 2)))) \<and> feq (Fin 2) (ftrunc (Fin 2)))"
    "is_f32 (Fin (- (1 / 2)))"
    by (simp_all add: is_f32_def fl_eval)
  show ?thesis
    using h zeta_summation_terminates [OF h, of nan_lib]
    by (simp add: flt_def feq_def is_inf_def)
qed

end
